theory Spec2Isabelle
  imports Main "HOL-Library.Sublist"
begin

section \<open>ReCal: event-time resolution and calendar-artifact generation\<close>

text \<open>
  A shallow embedding of the functions of \<^verbatim>\<open>src/app/page.tsx\<close> (and of the earlier
  revision of the same page, \<^verbatim>\<open>src/unnamed/part_000\<close>) that resolve a time-delay
  token into a start and an end date and render the event as an \<^verbatim>\<open>.ics\<close> document, a
  file name and two provider URLs, together with the list of recent selections.

  The page is TypeScript running in a browser. What the functions use of the language and
  of the platform is modelled after ECMAScript and the URL standard: strings, the regular
  expressions of the page, \<^verbatim>\<open>parseInt\<close>, \<^verbatim>\<open>Date\<close> with its time value, its local-time
  getters and \<^verbatim>\<open>toISOString\<close>, and \<^verbatim>\<open>URLSearchParams\<close>. The host's time zone is a
  parameter. The three functions of the date library the page imports are parameters of
  the embedding as well; a model of them is given further down for running examples.
\<close>

subsection \<open>Strings and characters\<close>

text \<open>
  A JavaScript string is a sequence of UTF-16 code units. The embedding uses \<^typ>\<open>string\<close>;
  a \<^typ>\<open>char\<close> stands for the code unit of the same number, so the strings of the model are
  the JavaScript strings over U+0000..U+00FF.
\<close>

definition code :: "char \<Rightarrow> int" where
  "code c = of_char c"

text \<open>The character classes of the page's regular expressions: \<^verbatim>\<open>\d\<close>, \<^verbatim>\<open>\w\<close>,
  \<^verbatim>\<open>[a-z0-9]\<close>.\<close>

definition isDigit :: "char \<Rightarrow> bool" where
  "isDigit c = (48 \<le> code c \<and> code c \<le> 57)"

definition isUpper :: "char \<Rightarrow> bool" where
  "isUpper c = (65 \<le> code c \<and> code c \<le> 90)"

definition isLower :: "char \<Rightarrow> bool" where
  "isLower c = (97 \<le> code c \<and> code c \<le> 122)"

definition isWord :: "char \<Rightarrow> bool" where
  "isWord c = (isDigit c \<or> isUpper c \<or> isLower c \<or> c = CHR ''_'')"

definition isSlugChar :: "char \<Rightarrow> bool" where
  "isSlugChar c = (isLower c \<or> isDigit c)"

text \<open>\<^verbatim>\<open>String(n)\<close> for an integer \<open>n\<close>: its decimal digits, with a minus sign below zero.
  A number is an integer or NaN (\<open>None\<close>), and \<^verbatim>\<open>String(NaN)\<close> is \<^verbatim>\<open>"NaN"\<close>.\<close>

definition digitChar :: "int \<Rightarrow> char" where
  "digitChar n = char_of (48 + n)"

function digitsOf :: "int \<Rightarrow> string" where
  "digitsOf n = (if n < 10 then [digitChar n] else digitsOf (n div 10) @ [digitChar (n mod 10)])"
  by pat_completeness auto
termination
  by (relation "measure nat") auto

declare digitsOf.simps [simp del]

definition intToString :: "int \<Rightarrow> string" where
  "intToString n = (if n < 0 then CHR ''-'' # digitsOf (- n) else digitsOf n)"

definition numberToString :: "int option \<Rightarrow> string" where
  "numberToString n = (case n of None \<Rightarrow> ''NaN'' | Some v \<Rightarrow> intToString v)"

text \<open>\<^verbatim>\<open>s.padStart(n, "0")\<close>, for a pad string of one character.\<close>

definition padStart :: "nat \<Rightarrow> char \<Rightarrow> string \<Rightarrow> string" where
  "padStart n c s = replicate (n - length s) c @ s"

text \<open>\<^verbatim>\<open>parseInt\<close> on the text of the group \<^verbatim>\<open>(\d+)\<close>, the only argument the page gives
  it: the value of the leading run of decimal digits. The value is exact here; the
  page's is the nearest double, which differs only above \<open>2^53\<close>.\<close>

definition digitValue :: "char \<Rightarrow> int" where
  "digitValue c = code c - 48"

definition parseInt :: "string \<Rightarrow> int" where
  "parseInt s = foldl (\<lambda>n c. 10 * n + digitValue c) 0 (takeWhile isDigit s)"

text \<open>\<^verbatim>\<open>s.toLowerCase()\<close>: on the code units of the model, the letters A-Z and the
  upper-case letters of U+00C0..U+00DE (all but the multiplication sign U+00D7) move up
  by 32, every other one stays.\<close>

definition toLowerChar :: "char \<Rightarrow> char" where
  "toLowerChar c =
     (if isUpper c \<or> (192 \<le> code c \<and> code c \<le> 222 \<and> code c \<noteq> 215)
      then char_of (code c + 32) else c)"

definition toLowerCase :: "string \<Rightarrow> string" where
  "toLowerCase s = map toLowerChar s"

subsection \<open>The regular expressions of the page\<close>

text \<open>
  \<^verbatim>\<open>td.match(/(\d+)(\w+)/)\<close>. The pattern is not anchored: the matcher tries the start
  positions from left to right. At one position \<^verbatim>\<open>\d+\<close> first takes the whole run of
  digits, \<^verbatim>\<open>\w+\<close> then takes the longest run of word characters that follows; when that
  run is empty the matcher backtracks and gives \<^verbatim>\<open>\d+\<close> one digit less, down to one
  digit. The result is the pair of the two groups, or \<open>None\<close> for \<^verbatim>\<open>null\<close>.
\<close>

fun tryDigits :: "nat \<Rightarrow> string \<Rightarrow> (string \<times> string) option" where
  "tryDigits 0 s = None"
| "tryDigits (Suc j) s =
     (let ws = takeWhile isWord (drop (Suc j) s)
      in if ws \<noteq> [] then Some (take (Suc j) s, ws) else tryDigits j s)"

definition matchHere :: "string \<Rightarrow> (string \<times> string) option" where
  "matchHere s = tryDigits (length (takeWhile isDigit s)) s"

fun matchDelay :: "string \<Rightarrow> (string \<times> string) option" where
  "matchDelay [] = None"
| "matchDelay (c # cs) =
     (case matchHere (c # cs) of Some m \<Rightarrow> Some m | None \<Rightarrow> matchDelay cs)"

text \<open>\<^verbatim>\<open>s.replace(/\n/g, "\\n")\<close>: every line feed becomes a backslash and the letter n.\<close>

definition escapeNewlines :: "string \<Rightarrow> string" where
  "escapeNewlines s = concat (map (\<lambda>c. if c = CHR 0x0A then [CHR 0x5C, CHR ''n''] else [c]) s)"

text \<open>\<^verbatim>\<open>s.replace(/[-:]/g, "")\<close>: hyphens and colons are deleted.\<close>

definition stripDashColon :: "string \<Rightarrow> string" where
  "stripDashColon s = filter (\<lambda>c. c \<noteq> CHR ''-'' \<and> c \<noteq> CHR '':'') s"

text \<open>\<^verbatim>\<open>s.replace(/\.\d{3}/, "")\<close>: the first full stop that three digits follow is
  deleted with them.\<close>

fun stripMillis :: "string \<Rightarrow> string" where
  "stripMillis [] = []"
| "stripMillis (c # cs) =
     (if c = CHR ''.'' \<and> 3 \<le> length cs \<and> list_all isDigit (take 3 cs)
      then drop 3 cs else c # stripMillis cs)"

text \<open>\<^verbatim>\<open>s.replace(/[^a-z0-9]+/g, "-")\<close>: every maximal run of characters outside
  \<^verbatim>\<open>[a-z0-9]\<close> becomes one hyphen.\<close>

function collapseRuns :: "string \<Rightarrow> string" where
  "collapseRuns [] = []"
| "collapseRuns (c # cs) =
     (if isSlugChar c then c # collapseRuns cs
      else CHR ''-'' # collapseRuns (dropWhile (\<lambda>x. \<not> isSlugChar x) cs))"
  by pat_completeness auto
termination
  by (relation "measure length") (auto simp: less_Suc_eq_le length_dropWhile_le)

text \<open>\<^verbatim>\<open>s.replace(/(^-|-$)/g, "")\<close>: a hyphen at the very start is deleted, and a hyphen
  at the very end of what is left.\<close>

definition stripEdgeHyphens :: "string \<Rightarrow> string" where
  "stripEdgeHyphens s =
     (let s1 = (case s of [] \<Rightarrow> [] | c # cs \<Rightarrow> if c = CHR ''-'' then cs else c # cs)
      in if s1 \<noteq> [] \<and> last s1 = CHR ''-'' then butlast s1 else s1)"

subsection \<open>The form record and the time-delay token\<close>

text \<open>\<^verbatim>\<open>FormData\<close>, as the schema of the form gives it: \<^verbatim>\<open>content\<close> is optional.\<close>

record FormData =
  title :: string
  content :: "string option"
  timeDelay :: string

text \<open>\<^verbatim>\<open>data.content || ""\<close>: an absent and an empty content are the empty string.\<close>

definition contentOrEmpty :: "FormData \<Rightarrow> string" where
  "contentOrEmpty data = (case content data of None \<Rightarrow> [] | Some c \<Rightarrow> c)"

definition parseTimeDelay :: "string \<Rightarrow> int \<times> string" where
  "parseTimeDelay td =
     (let m = matchDelay td;
          number = (case m of Some (g1, g2) \<Rightarrow> parseInt g1 | None \<Rightarrow> 1);
          unit = (case m of Some (g1, g2) \<Rightarrow> g2 | None \<Rightarrow> ''weeks'')
      in (number, unit))"

subsection \<open>Recent selections\<close>

text \<open>The state of the page that the actions change: the list \<^verbatim>\<open>recentDelays\<close> and
  the entry of the local storage under \<^verbatim>\<open>recal:recentTimeDelays\<close> (its JSON text is
  kept as the list it encodes).\<close>

record PageState =
  recentDelays :: "string list"
  storedRecents :: "string list option"

definition updateRecents :: "string \<Rightarrow> PageState \<Rightarrow> PageState" where
  "updateRecents td st =
     (let next = take 3 (td # filter (\<lambda>v. v \<noteq> td) (recentDelays st))
      in st\<lparr>recentDelays := next, storedRecents := Some next\<rparr>)"

subsection \<open>Time values and calendar fields (ECMAScript, Date objects)\<close>

text \<open>
  A \<^verbatim>\<open>Date\<close> holds a time value: a whole number of milliseconds since the epoch, at
  most \<open>8.64 * 10^15\<close> in absolute value, or NaN (an invalid date). Numbers read from a
  date are \<^typ>\<open>int option\<close>, with \<open>None\<close> for NaN.
\<close>

datatype jsDate = TimeValue int | InvalidDate

definition timeClip :: "int \<Rightarrow> jsDate" where
  "timeClip t = (if \<bar>t\<bar> \<le> 8640000000000000 then TimeValue t else InvalidDate)"

text \<open>\<^verbatim>\<open>new Date(v)\<close> for a number \<open>v\<close>, and \<^verbatim>\<open>date.getTime()\<close>.\<close>

definition newDate :: "int option \<Rightarrow> jsDate" where
  "newDate v = (case v of None \<Rightarrow> InvalidDate | Some t \<Rightarrow> timeClip t)"

definition getTime :: "jsDate \<Rightarrow> int option" where
  "getTime d = (case d of InvalidDate \<Rightarrow> None | TimeValue t \<Rightarrow> Some t)"

text \<open>\<^verbatim>\<open>new Date()\<close> when the wall clock reads \<open>now\<close>.\<close>

definition currentDate :: "int \<Rightarrow> jsDate" where
  "currentDate now = timeClip now"

definition msPerDay :: int where
  "msPerDay = 86400000"

definition Day :: "int \<Rightarrow> int" where
  "Day t = t div msPerDay"

definition TimeWithinDay :: "int \<Rightarrow> int" where
  "TimeWithinDay t = t mod msPerDay"

definition DaysInYear :: "int \<Rightarrow> int" where
  "DaysInYear y =
     (if y mod 4 \<noteq> 0 then 365 else if y mod 100 \<noteq> 0 then 366
      else if y mod 400 \<noteq> 0 then 365 else 366)"

definition DayFromYear :: "int \<Rightarrow> int" where
  "DayFromYear y = 365 * (y - 1970) + (y - 1969) div 4 - (y - 1901) div 100 + (y - 1601) div 400"

text \<open>The year of a day number: ECMAScript's largest \<open>y\<close> with \<open>DayFromYear y \<le> d\<close>,
  computed from the mean length of a year and set right by at most one.\<close>

definition YearFromDay :: "int \<Rightarrow> int" where
  "YearFromDay d =
     (let y0 = 1970 + (400 * d) div 146097
      in if DayFromYear (y0 + 1) \<le> d then y0 + 1
         else if d < DayFromYear y0 then y0 - 1 else y0)"

definition YearFromTime :: "int \<Rightarrow> int" where
  "YearFromTime t = YearFromDay (Day t)"

definition InLeapYear :: "int \<Rightarrow> int" where
  "InLeapYear t = (if DaysInYear (YearFromTime t) = 366 then 1 else 0)"

definition DayWithinYear :: "int \<Rightarrow> int" where
  "DayWithinYear t = Day t - DayFromYear (YearFromTime t)"

definition MonthFromTime :: "int \<Rightarrow> int" where
  "MonthFromTime t =
     (let d = DayWithinYear t; l = InLeapYear t
      in if d < 31 then 0 else if d < 59 + l then 1 else if d < 90 + l then 2
         else if d < 120 + l then 3 else if d < 151 + l then 4 else if d < 181 + l then 5
         else if d < 212 + l then 6 else if d < 243 + l then 7 else if d < 273 + l then 8
         else if d < 304 + l then 9 else if d < 334 + l then 10 else 11)"

definition DateFromTime :: "int \<Rightarrow> int" where
  "DateFromTime t =
     (let d = DayWithinYear t; l = InLeapYear t; m = MonthFromTime t
      in if m = 0 then d + 1 else if m = 1 then d - 30 else if m = 2 then d - 58 - l
         else if m = 3 then d - 89 - l else if m = 4 then d - 119 - l
         else if m = 5 then d - 150 - l else if m = 6 then d - 180 - l
         else if m = 7 then d - 211 - l else if m = 8 then d - 242 - l
         else if m = 9 then d - 272 - l else if m = 10 then d - 303 - l else d - 333 - l)"

definition HourFromTime :: "int \<Rightarrow> int" where
  "HourFromTime t = (t div 3600000) mod 24"

definition MinFromTime :: "int \<Rightarrow> int" where
  "MinFromTime t = (t div 60000) mod 60"

definition SecFromTime :: "int \<Rightarrow> int" where
  "SecFromTime t = (t div 1000) mod 60"

definition msFromTime :: "int \<Rightarrow> int" where
  "msFromTime t = t mod 1000"

text \<open>\<open>MakeDay year month date\<close>: the day number of the given date of the given month,
  where the month may lie outside \<open>0..11\<close> and the date outside the month.\<close>

definition monthStart :: "int \<Rightarrow> int \<Rightarrow> int" where
  "monthStart mn leap =
     (if mn = 0 then 0 else if mn = 1 then 31 else if mn = 2 then 59 + leap
      else if mn = 3 then 90 + leap else if mn = 4 then 120 + leap
      else if mn = 5 then 151 + leap else if mn = 6 then 181 + leap
      else if mn = 7 then 212 + leap else if mn = 8 then 243 + leap
      else if mn = 9 then 273 + leap else if mn = 10 then 304 + leap else 334 + leap)"

definition MakeDay :: "int \<Rightarrow> int \<Rightarrow> int \<Rightarrow> int" where
  "MakeDay year month dt =
     (let ym = year + month div 12; mn = month mod 12
      in DayFromYear ym + monthStart mn (if DaysInYear ym = 366 then 1 else 0) + dt - 1)"

definition MakeDate :: "int \<Rightarrow> int \<Rightarrow> int" where
  "MakeDate day time = day * msPerDay + time"

text \<open>
  The host's time zone: \<open>localTZA t True\<close> is the offset of local time from UTC, in
  milliseconds, at the UTC time value \<open>t\<close>, and \<open>localTZA t False\<close> the offset at the
  local time value \<open>t\<close>.
\<close>

record host =
  localTZA :: "int \<Rightarrow> bool \<Rightarrow> int"

definition LocalTime :: "host \<Rightarrow> int \<Rightarrow> int" where
  "LocalTime h t = t + localTZA h t True"

definition UTC :: "host \<Rightarrow> int \<Rightarrow> int" where
  "UTC h t = t - localTZA h t False"

text \<open>The getters of local time. On an invalid date each gives NaN.\<close>

definition localField :: "(int \<Rightarrow> int) \<Rightarrow> host \<Rightarrow> jsDate \<Rightarrow> int option" where
  "localField f h d = (case d of InvalidDate \<Rightarrow> None | TimeValue t \<Rightarrow> Some (f (LocalTime h t)))"

definition getFullYear :: "host \<Rightarrow> jsDate \<Rightarrow> int option" where
  "getFullYear = localField YearFromTime"

definition getMonth :: "host \<Rightarrow> jsDate \<Rightarrow> int option" where
  "getMonth = localField MonthFromTime"

definition getDate :: "host \<Rightarrow> jsDate \<Rightarrow> int option" where
  "getDate = localField DateFromTime"

definition getHours :: "host \<Rightarrow> jsDate \<Rightarrow> int option" where
  "getHours = localField HourFromTime"

definition getMinutes :: "host \<Rightarrow> jsDate \<Rightarrow> int option" where
  "getMinutes = localField MinFromTime"

definition getSeconds :: "host \<Rightarrow> jsDate \<Rightarrow> int option" where
  "getSeconds = localField SecFromTime"

text \<open>\<open>x + y\<close> on numbers: NaN when either is.\<close>

definition numPlus :: "int option \<Rightarrow> int option \<Rightarrow> int option" where
  "numPlus a b = (case (a, b) of (Some x, Some y) \<Rightarrow> Some (x + y) | _ \<Rightarrow> None)"

text \<open>
  \<^verbatim>\<open>date.toISOString()\<close>: the fields of the time value read as UTC, as
  \<^verbatim>\<open>YYYY-MM-DDTHH:mm:ss.sssZ\<close>; a year outside \<open>0..9999\<close> is written with a sign and
  six digits. On an invalid date the method throws a RangeError.
\<close>

datatype error = RangeError | TypeError

definition two :: "int \<Rightarrow> string" where
  "two n = padStart 2 (CHR ''0'') (digitsOf n)"

definition isoYear :: "int \<Rightarrow> string" where
  "isoYear y =
     (if 0 \<le> y \<and> y \<le> 9999 then padStart 4 (CHR ''0'') (digitsOf y)
      else (if y < 0 then CHR ''-'' else CHR ''+'') # padStart 6 (CHR ''0'') (digitsOf \<bar>y\<bar>))"

definition toISOString :: "jsDate \<Rightarrow> error + string" where
  "toISOString d =
     (case d of
        InvalidDate \<Rightarrow> Inl RangeError
      | TimeValue t \<Rightarrow>
          Inr (isoYear (YearFromTime t) @ ''-'' @ two (MonthFromTime t + 1) @ ''-''
               @ two (DateFromTime t) @ ''T'' @ two (HourFromTime t) @ '':''
               @ two (MinFromTime t) @ '':'' @ two (SecFromTime t) @ ''.''
               @ padStart 3 (CHR ''0'') (digitsOf (msFromTime t)) @ ''Z''))"

text \<open>The setters of local time that the date library calls. Each builds a local time
  value from the new fields and the old time within the day, and turns it into UTC.\<close>

definition setDate :: "host \<Rightarrow> jsDate \<Rightarrow> int option \<Rightarrow> jsDate" where
  "setDate h d dt =
     (case (d, dt) of
        (TimeValue tv, Some n) \<Rightarrow>
          (let t = LocalTime h tv
           in timeClip (UTC h (MakeDate (MakeDay (YearFromTime t) (MonthFromTime t) n)
                                        (TimeWithinDay t))))
      | _ \<Rightarrow> InvalidDate)"

definition setMonth :: "host \<Rightarrow> jsDate \<Rightarrow> int option \<Rightarrow> int option \<Rightarrow> jsDate" where
  "setMonth h d month dt =
     (case (d, month, dt) of
        (TimeValue tv, Some m, Some n) \<Rightarrow>
          (let t = LocalTime h tv
           in timeClip (UTC h (MakeDate (MakeDay (YearFromTime t) m n) (TimeWithinDay t))))
      | _ \<Rightarrow> InvalidDate)"

definition setFullYear ::
  "host \<Rightarrow> jsDate \<Rightarrow> int option \<Rightarrow> int option \<Rightarrow> int option \<Rightarrow> jsDate" where
  "setFullYear h d year month dt =
     (case (year, month, dt) of
        (Some y, Some m, Some n) \<Rightarrow>
          (let t = (case d of InvalidDate \<Rightarrow> 0 | TimeValue tv \<Rightarrow> LocalTime h tv)
           in timeClip (UTC h (MakeDate (MakeDay y m n) (TimeWithinDay t))))
      | _ \<Rightarrow> InvalidDate)"

subsection \<open>The date library\<close>

text \<open>
  The page imports \<^verbatim>\<open>addWeeks\<close>, \<^verbatim>\<open>addMonths\<close> and \<^verbatim>\<open>addYears\<close> from the package
  \<^verbatim>\<open>date-fns\<close>, which is not among the sources of the repository. The functions of the
  page take them as a parameter.
\<close>

record DateFns =
  addWeeks :: "jsDate \<Rightarrow> int \<Rightarrow> jsDate"
  addMonths :: "jsDate \<Rightarrow> int \<Rightarrow> jsDate"
  addYears :: "jsDate \<Rightarrow> int \<Rightarrow> jsDate"

text \<open>
  A model of the three functions as the package defines them on a host, for whole
  amounts: \<^verbatim>\<open>addWeeks\<close> adds seven times as many days with \<^verbatim>\<open>setDate\<close>;
  \<^verbatim>\<open>addMonths\<close> moves to the last day of the month aimed at and keeps it when the day
  of the month of the date is not before it, else sets year, month and the old day of
  the month; \<^verbatim>\<open>addYears\<close> adds twelve times as many months. A comparison with NaN is
  false.
\<close>

definition fnsAddDays :: "host \<Rightarrow> jsDate \<Rightarrow> int \<Rightarrow> jsDate" where
  "fnsAddDays h d amount =
     (if amount = 0 then d else setDate h d (numPlus (getDate h d) (Some amount)))"

definition fnsAddWeeks :: "host \<Rightarrow> jsDate \<Rightarrow> int \<Rightarrow> jsDate" where
  "fnsAddWeeks h d amount = fnsAddDays h d (amount * 7)"

definition numGreaterEq :: "int option \<Rightarrow> int option \<Rightarrow> bool" where
  "numGreaterEq a b = (case (a, b) of (Some x, Some y) \<Rightarrow> y \<le> x | _ \<Rightarrow> False)"

definition fnsAddMonths :: "host \<Rightarrow> jsDate \<Rightarrow> int \<Rightarrow> jsDate" where
  "fnsAddMonths h d amount =
     (if amount = 0 then d
      else
        (let dayOfMonth = getDate h d;
             endOfDesiredMonth =
               setMonth h d (numPlus (numPlus (getMonth h d) (Some amount)) (Some 1)) (Some 0);
             daysInMonth = getDate h endOfDesiredMonth
         in if numGreaterEq dayOfMonth daysInMonth then endOfDesiredMonth
            else setFullYear h d (getFullYear h endOfDesiredMonth)
                   (getMonth h endOfDesiredMonth) dayOfMonth))"

definition fnsAddYears :: "host \<Rightarrow> jsDate \<Rightarrow> int \<Rightarrow> jsDate" where
  "fnsAddYears h d amount = fnsAddMonths h d (amount * 12)"

definition dateFns :: "host \<Rightarrow> DateFns" where
  "dateFns h = \<lparr>addWeeks = fnsAddWeeks h, addMonths = fnsAddMonths h, addYears = fnsAddYears h\<rparr>"

text \<open>A host whose local time is UTC, and one two hours east of it all year.\<close>

definition utcHost :: host where
  "utcHost = \<lparr>localTZA = (\<lambda>t isUTC. 0)\<rparr>"

definition eastHost :: host where
  "eastHost = \<lparr>localTZA = (\<lambda>t isUTC. 7200000)\<rparr>"

subsection \<open>Resolving the token: \<^verbatim>\<open>getEventDates\<close>\<close>

text \<open>
  The table \<^verbatim>\<open>units\<close>. Each \<^verbatim>\<open>fn\<close> of the page reads the wall clock with
  \<^verbatim>\<open>new Date()\<close>; here the reading is its first argument.
\<close>

record Unit =
  unit_label :: string
  unit_value :: string
  unit_fn :: "int \<Rightarrow> int \<Rightarrow> jsDate"

definition units :: "DateFns \<Rightarrow> Unit list" where
  "units lib =
     [\<lparr>unit_label = ''weeks'', unit_value = ''weeks'',
         unit_fn = (\<lambda>now num. addWeeks lib (currentDate now) num)\<rparr>,
      \<lparr>unit_label = ''months'', unit_value = ''months'',
         unit_fn = (\<lambda>now num. addMonths lib (currentDate now) num)\<rparr>,
      \<lparr>unit_label = ''years'', unit_value = ''years'',
         unit_fn = (\<lambda>now num. addYears lib (currentDate now) num)\<rparr>]"

definition getEventDates :: "DateFns \<Rightarrow> int \<Rightarrow> FormData \<Rightarrow> jsDate \<times> jsDate" where
  "getEventDates lib now data =
     (let m = matchDelay (timeDelay data);
          number = (case m of Some (g1, g2) \<Rightarrow> parseInt g1 | None \<Rightarrow> 1);
          unit = (case m of Some (g1, g2) \<Rightarrow> g2 | None \<Rightarrow> ''weeks'');
          selectedUnit = find (\<lambda>u. unit_value u = unit) (units lib);
          startDate = (case selectedUnit of
                         Some u \<Rightarrow> unit_fn u now number
                       | None \<Rightarrow> addWeeks lib (currentDate now) 1);
          endDate = newDate (numPlus (getTime startDate) (Some (30 * 60000)))
      in (startDate, endDate))"

subsection \<open>The calendar file: \<^verbatim>\<open>generateICS\<close> and \<^verbatim>\<open>downloadICS\<close>\<close>

definition formatDate :: "host \<Rightarrow> jsDate \<Rightarrow> string" where
  "formatDate h date =
     (let year = getFullYear h date;
          month = padStart 2 (CHR ''0'') (numberToString (numPlus (getMonth h date) (Some 1)));
          day = padStart 2 (CHR ''0'') (numberToString (getDate h date));
          hours = padStart 2 (CHR ''0'') (numberToString (getHours h date));
          minutes = padStart 2 (CHR ''0'') (numberToString (getMinutes h date));
          seconds = padStart 2 (CHR ''0'') (numberToString (getSeconds h date))
      in numberToString year @ month @ day @ ''T'' @ hours @ minutes @ seconds)"

text \<open>\<^verbatim>\<open>now.toISOString().replace(/[-:]/g, "").replace(/\.\d{3}/, "")\<close>, the expression
  of \<^verbatim>\<open>dtstamp\<close> and of \<^verbatim>\<open>formatGoogleDate\<close>.\<close>

definition formatGoogleDate :: "jsDate \<Rightarrow> error + string" where
  "formatGoogleDate date =
     (case toISOString date of Inl e \<Rightarrow> Inl e | Inr s \<Rightarrow> Inr (stripMillis (stripDashColon s)))"

definition CRLF :: string where
  "CRLF = [CHR 0x0D, CHR 0x0A]"

text \<open>\<^verbatim>\<open>lines.join(sep)\<close>.\<close>

fun joinWith :: "string \<Rightarrow> string list \<Rightarrow> string" where
  "joinWith sep [] = []"
| "joinWith sep [x] = x"
| "joinWith sep (x # y # ys) = x @ sep @ joinWith sep (y # ys)"

text \<open>
  \<^verbatim>\<open>generateICS\<close> reads the wall clock three times: \<open>stampNow\<close> for \<^verbatim>\<open>new Date()\<close>,
  \<open>uidNow\<close> for \<^verbatim>\<open>Date.now()\<close>, and \<open>now\<close> inside \<^verbatim>\<open>getEventDates\<close>. The array
  \<^verbatim>\<open>icsContent\<close> is the list of the lines; a clock reading is a valid time value, so
  \<^verbatim>\<open>toISOString\<close> does not throw on it (the model writes what the code would stop at
  otherwise).
\<close>

definition icsContent :: "host \<Rightarrow> DateFns \<Rightarrow> int \<Rightarrow> int \<Rightarrow> int \<Rightarrow> FormData \<Rightarrow> error + string list" where
  "icsContent h lib stampNow uidNow now data =
     (let uid = intToString uidNow @ ''@recal.app''
      in case formatGoogleDate (currentDate stampNow) of
           Inl e \<Rightarrow> Inl e
         | Inr dtstamp \<Rightarrow>
             (let (startDate, endDate) = getEventDates lib now data
              in Inr [''BEGIN:VCALENDAR'',
                      ''VERSION:2.0'',
                      ''PRODID:-//ReCal//ReCal 1.0//EN'',
                      ''CALSCALE:GREGORIAN'',
                      ''METHOD:PUBLISH'',
                      ''BEGIN:VEVENT'',
                      ''UID:'' @ uid,
                      ''DTSTAMP:'' @ dtstamp,
                      ''DTSTART:'' @ formatDate h startDate,
                      ''DTEND:'' @ formatDate h endDate,
                      ''SUMMARY:'' @ title data,
                      ''DESCRIPTION:'' @ escapeNewlines (contentOrEmpty data),
                      ''END:VEVENT'',
                      ''END:VCALENDAR'']))"

definition generateICS :: "host \<Rightarrow> DateFns \<Rightarrow> int \<Rightarrow> int \<Rightarrow> int \<Rightarrow> FormData \<Rightarrow> error + string" where
  "generateICS h lib stampNow uidNow now data =
     (case icsContent h lib stampNow uidNow now data of
        Inl e \<Rightarrow> Inl e
      | Inr ls \<Rightarrow> Inr (joinWith CRLF ls))"

text \<open>The name \<^verbatim>\<open>downloadICS\<close> gives the file.\<close>

definition slug :: "string \<Rightarrow> string" where
  "slug t = stripEdgeHyphens (collapseRuns (take 30 (toLowerCase t)))"

definition downloadName :: "string \<Rightarrow> string" where
  "downloadName t = ''recal-'' @ slug t @ ''.ics''"

text \<open>What \<^verbatim>\<open>downloadICS\<close> hands to the browser: the text of the blob and the name of
  the download.\<close>

record Download =
  blobText :: string
  fileName :: string

definition downloadICS ::
  "host \<Rightarrow> DateFns \<Rightarrow> int \<Rightarrow> int \<Rightarrow> int \<Rightarrow> FormData \<Rightarrow> PageState \<Rightarrow> error + Download \<times> PageState" where
  "downloadICS h lib stampNow uidNow now data st =
     (case generateICS h lib stampNow uidNow now data of
        Inl e \<Rightarrow> Inl e
      | Inr icsText \<Rightarrow>
          Inr (\<lparr>blobText = icsText, fileName = downloadName (title data)\<rparr>,
               updateRecents (timeDelay data) st))"

subsection \<open>The provider links: \<^verbatim>\<open>addToGoogleCalendar\<close> and \<^verbatim>\<open>addToOutlook\<close>\<close>

text \<open>
  \<^verbatim>\<open>new URLSearchParams(record).toString()\<close>: the pairs in the order of the record, each
  as \<^verbatim>\<open>name=value\<close>, joined by \<^verbatim>\<open>&\<close>. Names and values are encoded as the URL
  standard serialises a form: the string is turned into UTF-8; a byte that is an ASCII
  letter or digit or one of \<^verbatim>\<open>* - . _\<close> stands for itself, a space becomes \<^verbatim>\<open>+\<close>,
  and every other byte becomes \<^verbatim>\<open>%\<close> and its two upper-case hexadecimal digits.
\<close>

definition hexDigit :: "int \<Rightarrow> char" where
  "hexDigit n = ''0123456789ABCDEF'' ! nat n"

definition percentByte :: "int \<Rightarrow> string" where
  "percentByte b = [CHR ''%'', hexDigit (b div 16), hexDigit (b mod 16)]"

definition utf8 :: "char \<Rightarrow> int list" where
  "utf8 c = (let n = code c in if n < 128 then [n] else [192 + n div 64, 128 + n mod 64])"

definition isUrlSafe :: "char \<Rightarrow> bool" where
  "isUrlSafe c =
     (isDigit c \<or> isUpper c \<or> isLower c
      \<or> c = CHR ''*'' \<or> c = CHR ''-'' \<or> c = CHR ''.'' \<or> c = CHR ''_'')"

definition formEncodeChar :: "char \<Rightarrow> string" where
  "formEncodeChar c =
     (if c = CHR '' '' then ''+''
      else if isUrlSafe c then [c]
      else concat (map percentByte (utf8 c)))"

definition formEncode :: "string \<Rightarrow> string" where
  "formEncode s = concat (map formEncodeChar s)"

definition searchParams :: "(string \<times> string) list \<Rightarrow> string" where
  "searchParams ps = joinWith ''&'' (map (\<lambda>(k, v). formEncode k @ ''='' @ formEncode v) ps)"

text \<open>Both actions return the URL they open in a new tab. \<^verbatim>\<open>toISOString\<close> throws on
  an invalid date; the action then ends before it opens a tab or records the token.\<close>

definition addToGoogleCalendar ::
  "DateFns \<Rightarrow> int \<Rightarrow> FormData \<Rightarrow> PageState \<Rightarrow> error + string \<times> PageState" where
  "addToGoogleCalendar lib now data st =
     (let (startDate, endDate) = getEventDates lib now data
      in case formatGoogleDate startDate of
           Inl e \<Rightarrow> Inl e
         | Inr startText \<Rightarrow>
             (case formatGoogleDate endDate of
                Inl e \<Rightarrow> Inl e
              | Inr endText \<Rightarrow>
                  (let params = searchParams
                         [(''action'', ''TEMPLATE''),
                          (''text'', title data),
                          (''dates'', startText @ ''/'' @ endText),
                          (''details'', contentOrEmpty data),
                          (''trp'', ''false'')];
                       url = ''https://calendar.google.com/calendar/render?'' @ params
                   in Inr (url, updateRecents (timeDelay data) st))))"

definition formatOutlookDate :: "jsDate \<Rightarrow> error + string" where
  "formatOutlookDate date =
     (case toISOString date of Inl e \<Rightarrow> Inl e | Inr s \<Rightarrow> Inr (take 19 s))"

definition addToOutlook ::
  "DateFns \<Rightarrow> int \<Rightarrow> FormData \<Rightarrow> PageState \<Rightarrow> error + string \<times> PageState" where
  "addToOutlook lib now data st =
     (let (startDate, endDate) = getEventDates lib now data
      in case formatOutlookDate startDate of
           Inl e \<Rightarrow> Inl e
         | Inr startText \<Rightarrow>
             (case formatOutlookDate endDate of
                Inl e \<Rightarrow> Inl e
              | Inr endText \<Rightarrow>
                  (let params = searchParams
                         [(''path'', ''/calendar/action/compose''),
                          (''rru'', ''addevent''),
                          (''startdt'', startText),
                          (''enddt'', endText),
                          (''subject'', title data),
                          (''body'', contentOrEmpty data)];
                       urls = [''https://outlook.live.com/calendar/deeplink/compose?'' @ params,
                               ''https://outlook.office.com/calendar/deeplink/compose?'' @ params]
                   in Inr (hd urls, updateRecents (timeDelay data) st))))"

subsection \<open>The earlier revision of the page\<close>

text \<open>
  \<^verbatim>\<open>generateICS\<close> of \<^verbatim>\<open>src/unnamed/part_000\<close> resolves the token in its own body. Its
  form requires a content; \<^verbatim>\<open>data.content.replace\<close> throws a TypeError on an absent
  one.
\<close>

definition generateICS_part000 ::
  "host \<Rightarrow> DateFns \<Rightarrow> int \<Rightarrow> int \<Rightarrow> int \<Rightarrow> FormData \<Rightarrow> error + string" where
  "generateICS_part000 h lib stampNow uidNow now data =
     (let uid = intToString uidNow @ ''@recal.app''
      in case formatGoogleDate (currentDate stampNow) of
           Inl e \<Rightarrow> Inl e
         | Inr dtstamp \<Rightarrow>
             (let m = matchDelay (timeDelay data);
                  number = (case m of Some (g1, g2) \<Rightarrow> parseInt g1 | None \<Rightarrow> 1);
                  unit = (case m of Some (g1, g2) \<Rightarrow> g2 | None \<Rightarrow> ''weeks'');
                  selectedUnit = find (\<lambda>u. unit_value u = unit) (units lib);
                  startDate = (case selectedUnit of
                                 Some u \<Rightarrow> unit_fn u now number
                               | None \<Rightarrow> addWeeks lib (currentDate now) 1);
                  endDate = newDate (numPlus (getTime startDate) (Some (30 * 60000)))
              in case content data of
                   None \<Rightarrow> Inl TypeError
                 | Some c \<Rightarrow>
                     Inr (joinWith CRLF
                       [''BEGIN:VCALENDAR'',
                        ''VERSION:2.0'',
                        ''PRODID:-//ReCal//ReCal 1.0//EN'',
                        ''CALSCALE:GREGORIAN'',
                        ''METHOD:PUBLISH'',
                        ''BEGIN:VEVENT'',
                        ''UID:'' @ uid,
                        ''DTSTAMP:'' @ dtstamp,
                        ''DTSTART:'' @ formatDate h startDate,
                        ''DTEND:'' @ formatDate h endDate,
                        ''SUMMARY:'' @ title data,
                        ''DESCRIPTION:'' @ escapeNewlines c,
                        ''END:VEVENT'',
                        ''END:VCALENDAR''])))"

subsection \<open>The timestamp formats the specification names\<close>

text \<open>
  The basic format \<^verbatim>\<open>YYYYMMDDTHHMMSS\<close> and the extended format
  \<^verbatim>\<open>YYYY-MM-DDTHH:MM:SS\<close> of the calendar fields of a time value \<open>t\<close>, with a year of
  four digits. Read at \<open>t\<close> itself the fields are those of UTC; read at
  \<open>LocalTime h t\<close> they are the wall-clock fields of the host.
\<close>

definition four :: "int \<Rightarrow> string" where
  "four y = padStart 4 (CHR ''0'') (digitsOf y)"

definition basicFormat :: "int \<Rightarrow> string" where
  "basicFormat t =
     four (YearFromTime t) @ two (MonthFromTime t + 1) @ two (DateFromTime t) @ ''T''
     @ two (HourFromTime t) @ two (MinFromTime t) @ two (SecFromTime t)"

definition extendedFormat :: "int \<Rightarrow> string" where
  "extendedFormat t =
     four (YearFromTime t) @ ''-'' @ two (MonthFromTime t + 1) @ ''-'' @ two (DateFromTime t)
     @ ''T'' @ two (HourFromTime t) @ '':'' @ two (MinFromTime t) @ '':'' @ two (SecFromTime t)"

subsection \<open>The pattern of the token, as the specification words it\<close>



subsection \<open>Reading the calendar file back\<close>

text \<open>
  The specification asks that parsing the generated document recovers the title, the
  body and the two dates. The page has no parser; the reader below is the one the round
  trip is stated for. It splits the document at every CRLF; the value of a property is
  what follows its name and a colon on the first line that starts so; in a description
  every backslash followed by the letter n stands for a line feed. \<open>hasPair a b s\<close> says
  that \<open>s\<close> has the character \<open>a\<close> at some place and \<open>b\<close> right after it.
\<close>

fun splitCRLF :: "string \<Rightarrow> string list" where
  "splitCRLF [] = [[]]"
| "splitCRLF [c] = [[c]]"
| "splitCRLF (c # d # cs) =
     (if c = CHR 0x0D \<and> d = CHR 0x0A then [] # splitCRLF cs
      else (case splitCRLF (d # cs) of [] \<Rightarrow> [[c]] | l # ls \<Rightarrow> (c # l) # ls))"

definition propertyValue :: "string \<Rightarrow> string list \<Rightarrow> string option" where
  "propertyValue name ls =
     (case find (prefix (name @ '':'')) ls of
        None \<Rightarrow> None
      | Some l \<Rightarrow> Some (drop (length name + 1) l))"

fun unescapeNewlines :: "string \<Rightarrow> string" where
  "unescapeNewlines (c # d # cs) =
     (if c = CHR 0x5C \<and> d = CHR ''n'' then CHR 0x0A # unescapeNewlines cs
      else c # unescapeNewlines (d # cs))"
| "unescapeNewlines cs = cs"

record Event =
  summary :: string
  description :: string
  dtstart :: string
  dtend :: string

definition readICS :: "string \<Rightarrow> Event option" where
  "readICS doc =
     (let ls = splitCRLF doc
      in case (propertyValue ''SUMMARY'' ls, propertyValue ''DESCRIPTION'' ls,
               propertyValue ''DTSTART'' ls, propertyValue ''DTEND'' ls) of
           (Some t, Some b, Some s, Some e) \<Rightarrow>
             Some \<lparr>summary = t, description = unescapeNewlines b, dtstart = s, dtend = e\<rparr>
         | _ \<Rightarrow> None)"

fun hasPair :: "char \<Rightarrow> char \<Rightarrow> string \<Rightarrow> bool" where
  "hasPair a b (c # d # cs) = ((c = a \<and> d = b) \<or> hasPair a b (d # cs))"
| "hasPair a b cs = False"

text \<open>The calendar fields of a time value (the month counted from 1), and the reader
  of the basic format that gives them back.\<close>

definition calendarFields :: "int \<Rightarrow> int \<times> int \<times> int \<times> int \<times> int \<times> int" where
  "calendarFields t =
     (YearFromTime t, MonthFromTime t + 1, DateFromTime t,
      HourFromTime t, MinFromTime t, SecFromTime t)"

definition readBasic :: "string \<Rightarrow> (int \<times> int \<times> int \<times> int \<times> int \<times> int) option" where
  "readBasic s =
     (if length s = 15 \<and> list_all isDigit (take 8 s) \<and> s ! 8 = CHR ''T''
         \<and> list_all isDigit (drop 9 s)
      then Some (parseInt (take 4 s), parseInt (take 2 (drop 4 s)), parseInt (take 2 (drop 6 s)),
                 parseInt (take 2 (drop 9 s)), parseInt (take 2 (drop 11 s)),
                 parseInt (take 2 (drop 13 s)))
      else None)"

subsection \<open>Timestamps outside the four-digit years\<close>

text \<open>
  \<open>basicTail t\<close> is the part \<^verbatim>\<open>MMDDTHHMMSS\<close> of the basic format, the part after the
  year; \<open>six y\<close> is a year written with six digits, as \<^verbatim>\<open>toISOString\<close> writes a year
  beyond 9999 after a plus sign.
\<close>

definition basicTail :: "int \<Rightarrow> string" where
  "basicTail t =
     two (MonthFromTime t + 1) @ two (DateFromTime t) @ ''T''
     @ two (HourFromTime t) @ two (MinFromTime t) @ two (SecFromTime t)"


subsection \<open>Reading a query value back\<close>






subsection \<open>Data for the examples\<close>

text \<open>A form record and a page state, and the clock reading 2024-01-31T10:00:00.000Z.\<close>

definition exampleData :: FormData where
  "exampleData =
     \<lparr>title = ''Revisit: My Decision!!'',
      content = Some (''first'' @ [CHR 0x0A] @ ''second''),
      timeDelay = ''2months''\<rparr>"

definition exampleState :: PageState where
  "exampleState = \<lparr>recentDelays = [''1weeks'', ''2months'', ''3years''], storedRecents = None\<rparr>"

definition exampleNow :: int where
  "exampleNow = 1706695200000"

text \<open>The clock reading 2024-01-31T10:00:45.678Z, and the example record with a title that
  has a character outside ASCII, a space and an ampersand.\<close>

definition exampleClock :: int where
  "exampleClock = 1706695245678"


section \<open>Properties\<close>

subsection \<open>Recent selections\<close>

lemma filter_absent: "t \<notin> set xs \<Longrightarrow> filter (\<lambda>v. v \<noteq> t) xs = xs"
  by (induction xs) auto

lemma filter_neq_length:
  "distinct xs \<Longrightarrow> t \<in> set xs \<Longrightarrow> Suc (length (filter (\<lambda>v. v \<noteq> t) xs)) = length xs"
  by (induction xs) (auto simp: filter_absent)

lemma recents_next:
  "recentDelays (updateRecents t st) = take 3 (t # filter (\<lambda>v. v \<noteq> t) (recentDelays st))"
  by (simp add: updateRecents_def Let_def)

lemma subseq_take_filter: "subseq (take n (filter P xs)) xs"
  by (rule subseq_order.trans [OF prefix_imp_subseq [OF take_is_prefix] subseq_filter_left])

text \<open>
  Claim C5. Every action that produces an artifact and returns ends with
  \<^verbatim>\<open>updateRecents(data.timeDelay)\<close> (shown for the three actions of the model). With
  \<open>prev\<close> the list before and \<open>next\<close> the list after \<open>updateRecents t\<close>: \<open>next\<close> is \<open>t\<close>
  followed by \<open>prev\<close> without its occurrences of \<open>t\<close>, cut to three entries, and it is
  what is stored; it never has more than three entries; \<open>t\<close> is at its front; the other
  entries keep their relative order (they are a subsequence of \<open>prev\<close>); a list without
  duplicates stays so; a token that is already in a duplicate-free list of at most three
  moves to the front and the list keeps its length; a fourth distinct token evicts the
  last, oldest one.
\<close>

theorem recents_after_action:
  fixes t :: string and st :: PageState
  defines "prev \<equiv> recentDelays st" and "next \<equiv> recentDelays (updateRecents t st)"
  shows "next = take 3 (t # filter (\<lambda>v. v \<noteq> t) prev)
    \<and> storedRecents (updateRecents t st) = Some next
    \<and> length next \<le> 3
    \<and> hd next = t
    \<and> subseq (tl next) prev
    \<and> (distinct prev \<longrightarrow> distinct next)
    \<and> (distinct prev \<and> length prev \<le> 3 \<and> t \<in> set prev \<longrightarrow> length next = length prev)
    \<and> (\<forall>a b c. prev = [a, b, c] \<and> t \<notin> set prev \<longrightarrow> next = [t, a, b])
    \<and> (\<forall>h lib s u n data r. downloadICS h lib s u n data st = Inr r
          \<longrightarrow> snd r = updateRecents (timeDelay data) st)
    \<and> (\<forall>lib n data r. addToGoogleCalendar lib n data st = Inr r
          \<longrightarrow> snd r = updateRecents (timeDelay data) st)
    \<and> (\<forall>lib n data r. addToOutlook lib n data st = Inr r
          \<longrightarrow> snd r = updateRecents (timeDelay data) st)"
proof -
  have n: "next = take 3 (t # filter (\<lambda>v. v \<noteq> t) prev)"
    by (simp add: next_def prev_def recents_next)
  have s: "storedRecents (updateRecents t st) = Some next"
    by (simp add: next_def updateRecents_def Let_def)
  have l: "length next \<le> 3" by (simp add: n)
  have h: "hd next = t" by (simp add: n)
  have tl: "tl next = take 2 (filter (\<lambda>v. v \<noteq> t) prev)"
    by (simp add: n numeral_3_eq_3 numeral_2_eq_2)
  have sub: "subseq (tl next) prev" unfolding tl by (rule subseq_take_filter)
  have d: "distinct prev \<longrightarrow> distinct next"
    by (auto simp: n numeral_3_eq_3 dest: in_set_takeD)
  have g: "distinct prev \<and> length prev \<le> 3 \<and> t \<in> set prev \<longrightarrow> length next = length prev"
  proof (intro impI, elim conjE)
    assume a: "distinct prev" "length prev \<le> 3" "t \<in> set prev"
    from filter_neq_length [OF a(1) a(3)] a(2) show "length next = length prev"
      by (simp add: n)
  qed
  have e: "\<forall>a b c. prev = [a, b, c] \<and> t \<notin> set prev \<longrightarrow> next = [t, a, b]"
    by (auto simp: n numeral_3_eq_3)
  have a1: "\<forall>h lib s u n data r. downloadICS h lib s u n data st = Inr r
      \<longrightarrow> snd r = updateRecents (timeDelay data) st"
    by (auto simp: downloadICS_def split: sum.splits)
  have a2: "\<forall>lib n data r. addToGoogleCalendar lib n data st = Inr r
      \<longrightarrow> snd r = updateRecents (timeDelay data) st"
    by (auto simp: addToGoogleCalendar_def Let_def split: sum.splits prod.splits)
  have a3: "\<forall>lib n data r. addToOutlook lib n data st = Inr r
      \<longrightarrow> snd r = updateRecents (timeDelay data) st"
    by (auto simp: addToOutlook_def Let_def split: sum.splits prod.splits)
  from n s l h sub d g e a1 a2 a3 show ?thesis by blast
qed

text \<open>The theorem at the example state: the token \<^verbatim>\<open>2months\<close>, which the list holds,
  and the token \<^verbatim>\<open>5years\<close>, which it does not; and the three actions on the example
  record, each of which returns.\<close>

theorem recents_after_action_witness:
  "distinct (recentDelays exampleState) \<and> length (recentDelays exampleState) \<le> 3
   \<and> ''2months'' \<in> set (recentDelays exampleState)
   \<and> recentDelays (updateRecents ''2months'' exampleState) = [''2months'', ''1weeks'', ''3years'']
   \<and> length (recentDelays (updateRecents ''2months'' exampleState)) = length (recentDelays exampleState)
   \<and> ''5years'' \<notin> set (recentDelays exampleState)
   \<and> recentDelays (updateRecents ''5years'' exampleState) = [''5years'', ''1weeks'', ''2months'']
   \<and> snd (projr (downloadICS utcHost (dateFns utcHost) exampleNow exampleNow exampleNow exampleData
        exampleState)) = updateRecents ''2months'' exampleState
   \<and> snd (projr (addToGoogleCalendar (dateFns utcHost) exampleNow exampleData exampleState))
       = updateRecents ''2months'' exampleState
   \<and> snd (projr (addToOutlook (dateFns utcHost) exampleNow exampleData exampleState))
       = updateRecents ''2months'' exampleState"
proof -
  let ?d = "downloadICS utcHost (dateFns utcHost) exampleNow exampleNow exampleNow exampleData
      exampleState"
  let ?g = "addToGoogleCalendar (dateFns utcHost) exampleNow exampleData exampleState"
  let ?o = "addToOutlook (dateFns utcHost) exampleNow exampleData exampleState"
  have p: "recentDelays exampleState = [''1weeks'', ''2months'', ''3years'']"
    by (simp add: exampleState_def)
  have d: "distinct (recentDelays exampleState) \<and> length (recentDelays exampleState) \<le> 3
      \<and> ''2months'' \<in> set (recentDelays exampleState)"
    by (simp add: p)
  have n5: "''5years'' \<notin> set (recentDelays exampleState)"
    by (simp add: p)
  have "isl ?d = False" by code_simp
  then have rd: "?d = Inr (projr ?d)" by (cases ?d) auto
  have "isl ?g = False" by code_simp
  then have rg: "?g = Inr (projr ?g)" by (cases ?g) auto
  have "isl ?o = False" by code_simp
  then have ro: "?o = Inr (projr ?o)" by (cases ?o) auto
  note r = rd rg ro
  have td: "timeDelay exampleData = ''2months''"
    by (simp add: exampleData_def)
  note a = recents_after_action [of "''2months''" exampleState]
  note b = recents_after_action [of "''5years''" exampleState]
  from a d have 1: "length (recentDelays (updateRecents ''2months'' exampleState))
      = length (recentDelays exampleState)" by blast
  from a have 2: "recentDelays (updateRecents ''2months'' exampleState)
      = [''2months'', ''1weeks'', ''3years'']" by (simp add: p)
  from b p n5 have 3: "recentDelays (updateRecents ''5years'' exampleState)
      = [''5years'', ''1weeks'', ''2months'']" by blast
  from a r(1) have "snd (projr ?d) = updateRecents (timeDelay exampleData) exampleState"
    by blast
  then have 4: "snd (projr ?d) = updateRecents ''2months'' exampleState" by (simp only: td)
  from a r(2) have "snd (projr ?g) = updateRecents (timeDelay exampleData) exampleState"
    by blast
  then have 5: "snd (projr ?g) = updateRecents ''2months'' exampleState" by (simp only: td)
  from a r(3) have "snd (projr ?o) = updateRecents (timeDelay exampleData) exampleState"
    by blast
  then have 6: "snd (projr ?o) = updateRecents ''2months'' exampleState" by (simp only: td)
  show ?thesis
    by (intro conjI) (rule d [THEN conjunct1], rule d [THEN conjunct2, THEN conjunct1],
        rule d [THEN conjunct2, THEN conjunct2], rule 2, rule 1, rule n5, rule 3, rule 4, rule 5,
        rule 6)
qed

subsection \<open>Calendar arithmetic\<close>

lemma div_lo: "0 < k \<Longrightarrow> k * (x div k) \<le> (x::int)"
  using mult_div_mod_eq [of k x] pos_mod_sign [of k x] by linarith

lemma div_hi: "0 < k \<Longrightarrow> (x::int) < k * (x div k) + k"
  using mult_div_mod_eq [of k x] pos_mod_bound [of k x] by linarith

lemma div_succ:
  assumes "0 < (k::int)"
  shows "(x + 1) div k = x div k + (if (x + 1) mod k = 0 then 1 else 0)"
proof -
  let ?q = "x div k" and ?r = "x mod k"
  have x: "x = k * ?q + ?r" by simp
  have r: "0 \<le> ?r" "?r < k" using assms by simp_all
  show ?thesis
  proof (cases "?r + 1 = k")
    case True
    have "k * (?q + 1) = k * ?q + k" by (simp add: algebra_simps)
    with True x have e: "x + 1 = k * (?q + 1) + 0" by linarith
    have "(x + 1) div k = ?q + 1"
      by (rule int_div_pos_eq [OF e]) (use assms in simp_all)
    moreover have "(x + 1) mod k = 0"
      by (rule int_mod_pos_eq [OF e]) (use assms in simp_all)
    ultimately show ?thesis by simp
  next
    case False
    with r have lt: "?r + 1 < k" by simp
    from x have e: "x + 1 = k * ?q + (?r + 1)" by linarith
    have "(x + 1) div k = ?q"
      by (rule int_div_pos_eq [OF e]) (use r lt in simp_all)
    moreover have "(x + 1) mod k = ?r + 1"
      by (rule int_mod_pos_eq [OF e]) (use r lt in simp_all)
    ultimately show ?thesis using r by simp
  qed
qed

lemma DayFromYear_bounds:
  "146097 * y - 287811596 \<le> 400 * DayFromYear y"
  "400 * DayFromYear y \<le> 146097 * y - 287810501"
proof -
  define a where "a = (y - 1969) div 4"
  define b where "b = (y - 1901) div 100"
  define c where "c = (y - 1601) div 400"
  have a: "4 * a \<le> y - 1969" "y - 1969 < 4 * a + 4"
    unfolding a_def by (rule div_lo, simp) (rule div_hi, simp)
  have b: "100 * b \<le> y - 1901" "y - 1901 < 100 * b + 100"
    unfolding b_def by (rule div_lo, simp) (rule div_hi, simp)
  have c: "400 * c \<le> y - 1601" "y - 1601 < 400 * c + 400"
    unfolding c_def by (rule div_lo, simp) (rule div_hi, simp)
  have d: "400 * DayFromYear y = 146000 * y - 287620000 + 400 * a - 400 * b + 400 * c"
    by (simp add: DayFromYear_def a_def b_def c_def)
  show "146097 * y - 287811596 \<le> 400 * DayFromYear y"
    unfolding d using a b c by linarith
  show "400 * DayFromYear y \<le> 146097 * y - 287810501"
    unfolding d using a b c by linarith
qed

lemma mod_shift4: "((y::int) - 1969 + 1) mod 4 = 0 \<longleftrightarrow> y mod 4 = 0"
proof -
  have "y - 1969 + 1 = y + 4 * (- 492)" by simp
  then show ?thesis by (simp only: mod_mult_self2)
qed
lemma mod_shift100: "((y::int) - 1901 + 1) mod 100 = 0 \<longleftrightarrow> y mod 100 = 0"
proof -
  have "y - 1901 + 1 = y + 100 * (- 19)" by simp
  then show ?thesis by (simp only: mod_mult_self2)
qed
lemma mod_shift400: "((y::int) - 1601 + 1) mod 400 = 0 \<longleftrightarrow> y mod 400 = 0"
proof -
  have "y - 1601 + 1 = y + 400 * (- 4)" by simp
  then show ?thesis by (simp only: mod_mult_self2)
qed
lemma mod_100_4: "(y::int) mod 100 = 0 \<Longrightarrow> y mod 4 = 0"
proof -
  assume "y mod 100 = 0"
  then have "100 dvd y" by (simp add: dvd_eq_mod_eq_0)
  moreover have "(4::int) dvd 100" by simp
  ultimately have "4 dvd y" by (rule dvd_trans [rotated])
  then show ?thesis by (simp add: dvd_eq_mod_eq_0)
qed
lemma mod_400_100: "(y::int) mod 400 = 0 \<Longrightarrow> y mod 100 = 0"
proof -
  assume "y mod 400 = 0"
  then have "400 dvd y" by (simp add: dvd_eq_mod_eq_0)
  moreover have "(100::int) dvd 400" by simp
  ultimately have "100 dvd y" by (rule dvd_trans [rotated])
  then show ?thesis by (simp add: dvd_eq_mod_eq_0)
qed

lemma DayFromYear_Suc: "DayFromYear (y + 1) = DayFromYear y + DaysInYear y"
proof -
  have e: "y + 1 - 1969 = y - 1969 + 1" "y + 1 - 1901 = y - 1901 + 1" "y + 1 - 1601 = y - 1601 + 1"
    by simp_all
  have a: "(y + 1 - 1969) div 4 = (y - 1969) div 4 + (if y mod 4 = 0 then 1 else 0)"
    unfolding e using div_succ [of 4 "y - 1969"] mod_shift4 [of y] by simp
  have b: "(y + 1 - 1901) div 100 = (y - 1901) div 100 + (if y mod 100 = 0 then 1 else 0)"
    unfolding e using div_succ [of 100 "y - 1901"] mod_shift100 [of y] by simp
  have c: "(y + 1 - 1601) div 400 = (y - 1601) div 400 + (if y mod 400 = 0 then 1 else 0)"
    unfolding e using div_succ [of 400 "y - 1601"] mod_shift400 [of y] by simp
  show ?thesis
    using mod_100_4 [of y] mod_400_100 [of y]
    unfolding DayFromYear_def DaysInYear_def a b c by auto
qed

lemma YearFromDay_correct:
  "DayFromYear (YearFromDay d) \<le> d \<and> d < DayFromYear (YearFromDay d + 1)"
proof -
  define q where "q = (400 * d) div 146097"
  define y0 where "y0 = 1970 + q"
  have lo: "146097 * q \<le> 400 * d"
    unfolding q_def by (rule div_lo) simp
  have hi: "400 * d < 146097 * q + 146097"
    unfolding q_def by (rule div_hi) simp
  have up: "d < DayFromYear (y0 + 2)"
  proof -
    define Y where "Y = y0 + 2"
    have "Y = q + 1972" by (simp add: Y_def y0_def)
    with DayFromYear_bounds(1) [of Y] hi have "d < DayFromYear Y" by linarith
    then show ?thesis by (simp add: Y_def)
  qed
  have dn: "DayFromYear (y0 - 1) \<le> d"
  proof -
    define Y where "Y = y0 - 1"
    have "Y = q + 1969" by (simp add: Y_def y0_def)
    with DayFromYear_bounds(2) [of Y] lo have "DayFromYear Y \<le> d" by linarith
    then show ?thesis by (simp add: Y_def)
  qed
  have s: "y0 + 1 + 1 = y0 + 2" "y0 - 1 + 1 = y0" by simp_all
  have y: "YearFromDay d = (if DayFromYear (y0 + 1) \<le> d then y0 + 1
         else if d < DayFromYear y0 then y0 - 1 else y0)"
    by (simp add: YearFromDay_def y0_def q_def Let_def)
  show ?thesis
    unfolding y using up dn by (auto simp: s)
qed

lemma DayWithinYear_bounds: "0 \<le> DayWithinYear t \<and> DayWithinYear t < 365 + InLeapYear t"
  using YearFromDay_correct [of "Day t"] DayFromYear_Suc [of "YearFromTime t"]
  by (auto simp: DayWithinYear_def InLeapYear_def YearFromTime_def DaysInYear_def split: if_splits)

lemma InLeapYear_cases: "InLeapYear t = 0 \<or> InLeapYear t = 1"
  by (simp add: InLeapYear_def)

lemma MonthFromTime_bounds: "0 \<le> MonthFromTime t \<and> MonthFromTime t \<le> 11"
  by (simp add: MonthFromTime_def Let_def)

lemma DateFromTime_bounds: "1 \<le> DateFromTime t \<and> DateFromTime t \<le> 31"
  using DayWithinYear_bounds [of t] InLeapYear_cases [of t]
  unfolding DateFromTime_def MonthFromTime_def Let_def
  by (auto split: if_splits)

subsection \<open>Digits, padding and the timestamp formats\<close>

lemma code_char_of: "0 \<le> n \<Longrightarrow> n < 256 \<Longrightarrow> code (char_of n) = n"
  by (simp add: code_def)

lemma isDigit_digitChar: "0 \<le> n \<Longrightarrow> n < 10 \<Longrightarrow> isDigit (digitChar n)"
  by (simp add: isDigit_def digitChar_def code_char_of)

lemma digitsOf_digits: "0 \<le> n \<Longrightarrow> list_all isDigit (digitsOf n)"
proof (induction n rule: digitsOf.induct)
  case (1 n)
  show ?case
  proof (cases "n < 10")
    case True
    with 1(2) show ?thesis by (simp add: digitsOf.simps [of n] isDigit_digitChar)
  next
    case False
    with 1 have "list_all isDigit (digitsOf (n div 10))" by simp
    moreover have "isDigit (digitChar (n mod 10))" by (simp add: isDigit_digitChar)
    ultimately show ?thesis using False by (simp add: digitsOf.simps [of n])
  qed
qed

lemma digitsOf_length1: "n < 10 \<Longrightarrow> length (digitsOf n) = 1"
  by (simp add: digitsOf.simps [of n])

lemma digitsOf_length2: "10 \<le> n \<Longrightarrow> n < 100 \<Longrightarrow> length (digitsOf n) = 2"
  using digitsOf_length1 [of "n div 10"] by (simp add: digitsOf.simps [of n])

lemma digitsOf_length3: "100 \<le> n \<Longrightarrow> n < 1000 \<Longrightarrow> length (digitsOf n) = 3"
  using digitsOf_length2 [of "n div 10"] by (simp add: digitsOf.simps [of n])

lemma digitsOf_length4: "1000 \<le> n \<Longrightarrow> n < 10000 \<Longrightarrow> length (digitsOf n) = 4"
  using digitsOf_length3 [of "n div 10"] by (simp add: digitsOf.simps [of n])

lemma digitsOf_length_le:
  "n < 100 \<Longrightarrow> length (digitsOf n) \<le> 2"
  "n < 1000 \<Longrightarrow> length (digitsOf n) \<le> 3"
  "n < 10000 \<Longrightarrow> length (digitsOf n) \<le> 4"
  using digitsOf_length1 [of n] digitsOf_length2 [of n] digitsOf_length3 [of n]
    digitsOf_length4 [of n]
  by (cases "n < 10"; cases "n < 100"; cases "n < 1000"; simp)+

lemma padStart_length: "length s \<le> n \<Longrightarrow> length (padStart n c s) = n"
  by (simp add: padStart_def)

lemma isDigit_zero: "isDigit (CHR ''0'')"
  by (simp add: isDigit_def code_def)

lemma padStart_digits: "list_all isDigit s \<Longrightarrow> list_all isDigit (padStart n (CHR ''0'') s)"
  using isDigit_zero by (auto simp: padStart_def list_all_iff)

lemma two_length: "n < 100 \<Longrightarrow> length (two n) = 2"
  by (simp add: two_def padStart_length digitsOf_length_le)

lemma two_digits: "0 \<le> n \<Longrightarrow> list_all isDigit (two n)"
  by (simp add: two_def padStart_digits digitsOf_digits)

lemma four_length: "n < 10000 \<Longrightarrow> length (four n) = 4"
  by (simp add: four_def padStart_length digitsOf_length_le)

lemma four_digits: "0 \<le> n \<Longrightarrow> list_all isDigit (four n)"
  by (simp add: four_def padStart_digits digitsOf_digits)

lemma four_eq_digitsOf: "1000 \<le> n \<Longrightarrow> n < 10000 \<Longrightarrow> four n = digitsOf n"
  by (simp add: four_def padStart_def digitsOf_length4)

lemma two_eq_padStart: "0 \<le> n \<Longrightarrow> padStart 2 (CHR ''0'') (numberToString (Some n)) = two n"
  by (simp add: two_def numberToString_def intToString_def)

lemma time_field_bounds:
  "0 \<le> HourFromTime t" "HourFromTime t < 100"
  "0 \<le> MinFromTime t" "MinFromTime t < 100"
  "0 \<le> SecFromTime t" "SecFromTime t < 100"
  "0 \<le> msFromTime t" "msFromTime t < 1000"
  by (simp_all add: HourFromTime_def MinFromTime_def SecFromTime_def msFromTime_def
      order_less_trans [OF pos_mod_bound])

lemma date_field_bounds:
  "0 \<le> MonthFromTime t + 1" "MonthFromTime t + 1 < 100"
  "0 \<le> DateFromTime t" "DateFromTime t < 100"
  using MonthFromTime_bounds [of t] DateFromTime_bounds [of t] by simp_all


lemma digit_not_sep:
  "isDigit c \<Longrightarrow> c \<noteq> CHR ''-'' \<and> c \<noteq> CHR '':'' \<and> c \<noteq> CHR ''.'' \<and> c \<noteq> CHR ''T'' \<and> c \<noteq> CHR ''Z''"
  by (auto simp: isDigit_def code_def)

lemma stripDashColon_digits: "list_all isDigit s \<Longrightarrow> stripDashColon s = s"
  unfolding stripDashColon_def by (rule filter_True) (auto simp: list_all_iff dest: digit_not_sep)

lemma stripDashColon_append: "stripDashColon (a @ b) = stripDashColon a @ stripDashColon b"
  by (simp add: stripDashColon_def)

lemma stripDashColon_Cons:
  "stripDashColon (c # s) = (if c = CHR ''-'' \<or> c = CHR '':'' then stripDashColon s else c # stripDashColon s)"
  by (simp add: stripDashColon_def)

lemma stripMillis_skip: "CHR ''.'' \<notin> set a \<Longrightarrow> stripMillis (a @ b) = a @ stripMillis b"
  by (induction a) auto

lemma stripMillis_hit:
  "length ms = 3 \<Longrightarrow> list_all isDigit ms \<Longrightarrow> stripMillis (CHR ''.'' # ms @ rest) = rest"
  by simp

lemma fields_digits:
  "list_all isDigit (two (MonthFromTime t + 1))" "list_all isDigit (two (DateFromTime t))"
  "list_all isDigit (two (HourFromTime t))" "list_all isDigit (two (MinFromTime t))"
  "list_all isDigit (two (SecFromTime t))"
  by (simp_all add: two_digits time_field_bounds date_field_bounds)

lemma fields_length:
  "length (two (MonthFromTime t + 1)) = 2" "length (two (DateFromTime t)) = 2"
  "length (two (HourFromTime t)) = 2" "length (two (MinFromTime t)) = 2"
  "length (two (SecFromTime t)) = 2"
  by (simp_all add: two_length time_field_bounds date_field_bounds)

lemma millis_text:
  "length (padStart 3 (CHR ''0'') (digitsOf (msFromTime t))) = 3"
  "list_all isDigit (padStart 3 (CHR ''0'') (digitsOf (msFromTime t)))"
  by (simp_all add: padStart_length padStart_digits digitsOf_digits digitsOf_length_le
      time_field_bounds)

lemma toISOString_extended:
  assumes "0 \<le> YearFromTime t" "YearFromTime t \<le> 9999"
  shows "toISOString (TimeValue t)
    = Inr (extendedFormat t @ ''.'' @ padStart 3 (CHR ''0'') (digitsOf (msFromTime t)) @ ''Z'')"
  using assms by (simp add: toISOString_def extendedFormat_def isoYear_def four_def)


lemma basicFormat_length:
  "0 \<le> YearFromTime t \<Longrightarrow> YearFromTime t \<le> 9999 \<Longrightarrow> length (basicFormat t) = 15"
  by (simp add: basicFormat_def fields_length four_length)

lemma stripDashColon_extended:
  assumes "0 \<le> YearFromTime t"
  shows "stripDashColon (extendedFormat t @ CHR ''.'' # ms @ ''Z'')
    = basicFormat t @ CHR ''.'' # stripDashColon ms @ ''Z''"
  using assms
  by (simp add: extendedFormat_def basicFormat_def stripDashColon_append stripDashColon_Cons
      stripDashColon_digits fields_digits four_digits)

lemma basicFormat_no_dot:
  assumes "0 \<le> YearFromTime t"
  shows "CHR ''.'' \<notin> set (basicFormat t)"
proof -
  have "\<And>s. list_all isDigit s \<Longrightarrow> CHR ''.'' \<notin> set s"
    by (auto simp: list_all_iff dest: digit_not_sep)
  then show ?thesis
    using assms by (simp add: basicFormat_def fields_digits four_digits)
qed

lemma formatGoogleDate_basic:
  assumes "0 \<le> YearFromTime t" "YearFromTime t \<le> 9999"
  shows "formatGoogleDate (TimeValue t) = Inr (basicFormat t @ ''Z'')"
proof -
  let ?ms = "padStart 3 (CHR ''0'') (digitsOf (msFromTime t))"
  have "stripMillis (stripDashColon (extendedFormat t @ ''.'' @ ?ms @ ''Z''))
      = stripMillis (basicFormat t @ (CHR ''.'' # ?ms @ ''Z''))"
    by (simp add: stripDashColon_extended assms stripDashColon_digits millis_text)
  also have "\<dots> = basicFormat t @ stripMillis (CHR ''.'' # ?ms @ ''Z'')"
    by (rule stripMillis_skip) (rule basicFormat_no_dot [OF assms(1)])
  also have "\<dots> = basicFormat t @ ''Z''"
    by (simp only: stripMillis_hit [OF millis_text])
  finally show ?thesis
    by (simp add: formatGoogleDate_def toISOString_extended [OF assms])
qed


lemma formatDate_basic:
  assumes "1000 \<le> YearFromTime (LocalTime h t)" "YearFromTime (LocalTime h t) \<le> 9999"
  shows "formatDate h (TimeValue t) = basicFormat (LocalTime h t)"
  using assms time_field_bounds [of "LocalTime h t"] date_field_bounds [of "LocalTime h t"]
  by (simp add: formatDate_def basicFormat_def Let_def getFullYear_def getMonth_def getDate_def
      getHours_def getMinutes_def getSeconds_def localField_def numPlus_def two_eq_padStart
      four_eq_digitsOf numberToString_def intToString_def two_def)

lemma basicFormat_tail: "basicFormat t = four (YearFromTime t) @ basicTail t"
  by (simp add: basicFormat_def basicTail_def)

lemma basicTail_length: "length (basicTail t) = 11"
  by (simp add: basicTail_def fields_length)

lemma formatDate_valid:
  "formatDate h (TimeValue t)
     = intToString (YearFromTime (LocalTime h t)) @ basicTail (LocalTime h t)"
proof -
  let ?t = "LocalTime h t"
  have p: "\<And>n. 0 \<le> n \<Longrightarrow> padStart 2 (CHR ''0'') (intToString n) = two n"
    by (simp add: intToString_def two_def)
  have f: "padStart 2 (CHR ''0'') (intToString (MonthFromTime ?t + 1)) = two (MonthFromTime ?t + 1)"
    "padStart 2 (CHR ''0'') (intToString (DateFromTime ?t)) = two (DateFromTime ?t)"
    "padStart 2 (CHR ''0'') (intToString (HourFromTime ?t)) = two (HourFromTime ?t)"
    "padStart 2 (CHR ''0'') (intToString (MinFromTime ?t)) = two (MinFromTime ?t)"
    "padStart 2 (CHR ''0'') (intToString (SecFromTime ?t)) = two (SecFromTime ?t)"
    by (rule p, rule date_field_bounds time_field_bounds)+
  show ?thesis
    by (simp add: formatDate_def basicTail_def Let_def getFullYear_def getMonth_def getDate_def
        getHours_def getMinutes_def getSeconds_def localField_def numPlus_def
        numberToString_def f)
qed

lemma formatDate_invalid: "formatDate h InvalidDate = ''NaNNaNNaNTNaNNaNNaN''"
  by (simp add: formatDate_def Let_def getFullYear_def getMonth_def getDate_def
      getHours_def getMinutes_def getSeconds_def localField_def numPlus_def
      numberToString_def padStart_def)

lemma digitsOf_length_ge5: "10000 \<le> n \<Longrightarrow> 5 \<le> length (digitsOf n)"
proof (induction n rule: digitsOf.induct)
  case (1 n)
  from 1(2) have n: "\<not> n < 10" by simp
  show ?case
  proof (cases "10000 \<le> n div 10")
    case True
    with 1(1) [OF n] show ?thesis by (simp add: digitsOf.simps [of n] n)
  next
    case False
    from 1(2) div_hi [of 10 n] have "1000 \<le> n div 10" by linarith
    with False have "length (digitsOf (n div 10)) = 4" by (simp add: digitsOf_length4)
    then show ?thesis by (simp add: digitsOf.simps [of n] n)
  qed
qed

lemma formatDate_long:
  assumes "9999 < YearFromTime (LocalTime h t)"
  shows "15 < length (formatDate h (TimeValue t))"
  using assms digitsOf_length_ge5 [of "YearFromTime (LocalTime h t)"]
  by (simp add: formatDate_valid basicTail_length intToString_def)














subsection \<open>The lines of the calendar file\<close>

lemma joinWith_conv:
  "ls \<noteq> [] \<Longrightarrow> joinWith sep ls = concat (map (\<lambda>l. l @ sep) (butlast ls)) @ last ls"
  by (induction sep ls rule: joinWith.induct) simp_all

lemma icsContent_shape:
  assumes "icsContent h lib stampNow uidNow now data = Inr ls"
  shows "length ls = 14 \<and> last ls = ''END:VCALENDAR''"
  using assms
  by (auto simp: icsContent_def Let_def split: sum.splits prod.splits)

lemma generateICS_part000_eq:
  "content data = Some c \<Longrightarrow>
   generateICS_part000 h lib stampNow uidNow now data = generateICS h lib stampNow uidNow now data"
  by (simp add: generateICS_part000_def generateICS_def icsContent_def getEventDates_def
      contentOrEmpty_def Let_def split: sum.splits)

lemma generateICS_part000_Inr:
  assumes "generateICS_part000 h lib stampNow uidNow now data = Inr doc"
  shows "generateICS h lib stampNow uidNow now data = Inr doc"
proof (cases "content data")
  case None
  then have "isl (generateICS_part000 h lib stampNow uidNow now data)"
    by (simp add: generateICS_part000_def Let_def split: sum.splits)
  with assms show ?thesis by simp
next
  case (Some c)
  with assms show ?thesis by (simp add: generateICS_part000_eq)
qed

lemma not_suffix_CRLF: "last doc \<noteq> CHR 0x0A \<Longrightarrow> \<not> suffix CRLF doc"
  by (auto simp: suffix_def CRLF_def)

text \<open>
  Claim C9, as the code has it. \<^verbatim>\<open>join\<close> puts CRLF between the records and nothing
  after the last one: the document of either revision of \<^verbatim>\<open>generateICS\<close> is its
  fourteen lines, each of the first thirteen followed by CRLF, and then the line
  \<^verbatim>\<open>END:VCALENDAR\<close>, which ends the document; the document does not end with CRLF.
\<close>

theorem ics_line_terminators:
  assumes "generateICS h lib stampNow uidNow now data = Inr doc
     \<or> generateICS_part000 h lib stampNow uidNow now data = Inr doc"
  shows "\<exists>ls. icsContent h lib stampNow uidNow now data = Inr ls \<and> length ls = 14
     \<and> doc = concat (map (\<lambda>l. l @ CRLF) (butlast ls)) @ last ls
     \<and> last ls = ''END:VCALENDAR'' \<and> suffix ''END:VCALENDAR'' doc \<and> \<not> suffix CRLF doc"
proof -
  from assms have g: "generateICS h lib stampNow uidNow now data = Inr doc"
    by (auto dest: generateICS_part000_Inr)
  then obtain ls where ls: "icsContent h lib stampNow uidNow now data = Inr ls"
    and doc: "doc = joinWith CRLF ls"
    by (auto simp: generateICS_def split: sum.splits)
  from icsContent_shape [OF ls] have sh: "length ls = 14" "last ls = ''END:VCALENDAR''"
    by simp_all
  then have ne: "ls \<noteq> []" by auto
  have d: "doc = concat (map (\<lambda>l. l @ CRLF) (butlast ls)) @ last ls"
    unfolding doc by (rule joinWith_conv [OF ne])
  have s: "suffix ''END:VCALENDAR'' doc"
    unfolding d sh(2) by (rule suffixI) simp
  have "last doc = CHR ''R''" unfolding d sh(2) by simp
  then have n: "\<not> suffix CRLF doc" by (intro not_suffix_CRLF) simp
  from ls sh d s n show ?thesis by blast
qed

text \<open>The theorem at the example record, on the host in UTC.\<close>

theorem ics_line_terminators_witness:
  "generateICS utcHost (dateFns utcHost) exampleNow exampleNow exampleNow exampleData
     = Inr (projr (generateICS utcHost (dateFns utcHost) exampleNow exampleNow exampleNow
         exampleData))
   \<and> suffix ''END:VCALENDAR''
       (projr (generateICS utcHost (dateFns utcHost) exampleNow exampleNow exampleNow exampleData))
   \<and> \<not> suffix CRLF
       (projr (generateICS utcHost (dateFns utcHost) exampleNow exampleNow exampleNow exampleData))"
proof -
  let ?g = "generateICS utcHost (dateFns utcHost) exampleNow exampleNow exampleNow exampleData"
  have "isl ?g = False" by code_simp
  then have g: "?g = Inr (projr ?g)" by (cases ?g) auto
  then have "?g = Inr (projr ?g) \<or> generateICS_part000 utcHost (dateFns utcHost) exampleNow
      exampleNow exampleNow exampleData = Inr (projr ?g)" ..
  from ics_line_terminators [OF this] g show ?thesis by blast
qed

text \<open>
  Claim C9, as stated, fails: the document generated for the example record ends with
  \<^verbatim>\<open>END:VCALENDAR\<close> and not with CRLF, so its final line has no terminator.
\<close>

theorem ics_final_line_counterexample:
  "(case generateICS utcHost (dateFns utcHost) exampleNow exampleNow exampleNow exampleData of
      Inl e \<Rightarrow> False
    | Inr doc \<Rightarrow> suffix ''END:VCALENDAR'' doc \<and> \<not> suffix CRLF doc)"
  by code_simp

subsection \<open>The name of the download\<close>




lemma collapseRuns_head:
  "collapseRuns s = c # r \<Longrightarrow> (isSlugChar c \<and> (\<exists>cs. s = c # cs)) \<or> (c = CHR ''-'' \<and> (\<exists>d cs. s = d # cs \<and> \<not> isSlugChar d))"
  by (cases s) (auto split: if_splits)















subsection \<open>Matching the token\<close>

lemma digit_is_word: "isDigit c \<Longrightarrow> isWord c"
  by (simp add: isWord_def)

lemma takeWhile_word_Nil: "takeWhile isWord s = [] \<longleftrightarrow> s = [] \<or> \<not> isWord (hd s)"
  by (cases s) auto

text \<open>What \<open>matchHere\<close> returns, without the loop.\<close>

lemma matchHere_eq:
  fixes s :: string
  defines "ds \<equiv> takeWhile isDigit s"
  defines "rest \<equiv> dropWhile isDigit s"
  shows "matchHere s =
     (if ds = [] then None
      else if takeWhile isWord rest \<noteq> [] then Some (ds, takeWhile isWord rest)
      else if 2 \<le> length ds then Some (butlast ds, [last ds])
      else None)"
proof (cases ds)
  case Nil
  then show ?thesis by (simp add: matchHere_def ds_def)
next
  case (Cons d ds')
  define k where "k = length ds'"
  have len: "length ds = Suc k" by (simp add: Cons k_def)
  have s: "s = ds @ rest" by (simp add: ds_def rest_def)
  have tk: "take (Suc k) s = ds" "drop (Suc k) s = rest"
    using len by (subst s, simp)+
  have m: "matchHere s = tryDigits (Suc k) s"
    using len by (simp add: matchHere_def ds_def)
  show ?thesis
  proof (cases "takeWhile isWord rest = []")
    case False
    with m tk Cons show ?thesis by (simp add: Let_def)
  next
    case True
    then have m2: "matchHere s = tryDigits k s" using m tk by (simp add: Let_def)
    show ?thesis
    proof (cases k)
      case 0
      with m2 True Cons len show ?thesis by simp
    next
      case (Suc j)
      have dd: "ds = butlast ds @ [last ds]" using Cons by simp
      have lb: "length (butlast ds) = k" using len by simp
      have s2: "s = butlast ds @ (last ds # rest)"
        by (subst s, subst dd) simp
      have tk2: "take k s = butlast ds" "drop k s = last ds # rest"
        using lb by (subst s2, simp)+
      have "last ds \<in> set ds" using Cons by simp
      then have "isDigit (last ds)" unfolding ds_def by (rule set_takeWhileD [THEN conjunct2])
      then have w: "isWord (last ds)" by (rule digit_is_word)
      have "takeWhile isWord (drop k s) = [last ds]"
        using w True by (simp add: tk2)
      with m2 Suc tk2 True len Cons show ?thesis by (simp add: Let_def)
    qed
  qed
qed

lemma matchHere_Some_iff:
  "matchHere s \<noteq> None \<longleftrightarrow> (\<exists>d w r. s = d # w # r \<and> isDigit d \<and> isWord w)"
proof
  assume a: "matchHere s \<noteq> None"
  define ds where "ds = takeWhile isDigit s"
  define rest where "rest = dropWhile isDigit s"
  have s: "s = ds @ rest" by (simp add: ds_def rest_def)
  have dig: "\<And>x. x \<in> set ds \<Longrightarrow> isDigit x"
    unfolding ds_def by (rule set_takeWhileD [THEN conjunct2])
  from a have ne: "ds \<noteq> []" and c: "takeWhile isWord rest \<noteq> [] \<or> 2 \<le> length ds"
    unfolding matchHere_eq ds_def [symmetric] rest_def [symmetric]
    by (auto split: if_splits)
  from ne obtain d ds' where d: "ds = d # ds'" by (cases ds) auto
  show "\<exists>d w r. s = d # w # r \<and> isDigit d \<and> isWord w"
  proof (cases ds')
    case Nil
    with c d have "takeWhile isWord rest \<noteq> []" by simp
    then obtain w r where "rest = w # r" "isWord w"
      by (cases rest) (auto split: if_splits)
    with s d Nil dig show ?thesis by auto
  next
    case (Cons w r)
    with s d dig [of d] dig [of w] digit_is_word [of w] show ?thesis by auto
  qed
next
  assume "\<exists>d w r. s = d # w # r \<and> isDigit d \<and> isWord w"
  then obtain d w r where s: "s = d # w # r" and d: "isDigit d" and w: "isWord w" by blast
  show "matchHere s \<noteq> None"
  proof (cases "isDigit w")
    case True
    with s d show ?thesis by (simp add: matchHere_eq)
  next
    case False
    with s d w show ?thesis by (simp add: matchHere_eq)
  qed
qed





lemma matchDelay_first:
  assumes "s = pre @ d # w # rest" "isDigit d" "isWord w"
    "\<forall>i<length pre. \<not> (isDigit (s ! i) \<and> isWord (s ! Suc i))"
  shows "matchDelay s = matchHere (d # w # rest)"
  using assms
proof (induction pre arbitrary: s)
  case Nil
  have "matchHere (d # w # rest) \<noteq> None"
    using Nil(2,3) matchHere_Some_iff [of "d # w # rest"] by blast
  with Nil(1) show ?case by (auto split: option.splits)
next
  case (Cons c pre)
  define s' where "s' = pre @ d # w # rest"
  have s: "s = c # s'" by (simp add: Cons(2) s'_def)
  have "\<forall>i<length pre. \<not> (isDigit (s' ! i) \<and> isWord (s' ! Suc i))"
    using Cons(5) [rule_format, of "Suc i" for i] by (auto simp: s)
  with Cons(1) [of s'] Cons(3,4) have ih: "matchDelay s' = matchHere (d # w # rest)"
    by (simp add: s'_def)
  have "\<not> (isDigit (s ! 0) \<and> isWord (s ! Suc 0))"
    using Cons(5) [rule_format, of 0] by simp
  then have "\<not> (\<exists>d' w' r. s = d' # w' # r \<and> isDigit d' \<and> isWord w')" by auto
  then have "matchHere s = None" using matchHere_Some_iff [of s] by blast
  with ih show ?case by (simp add: s)
qed

lemma takeWhile_word_digits:
  "takeWhile isWord s = takeWhile isDigit s @ takeWhile isWord (dropWhile isDigit s)"
  by (induction s) (auto simp: digit_is_word)

lemma matchHere_groups:
  assumes "matchHere s = Some (g1, g2)"
  shows "g1 \<noteq> [] \<and> list_all isDigit g1 \<and> g2 \<noteq> [] \<and> list_all isWord g2
    \<and> g1 @ g2 = takeWhile isWord s
    \<and> g1 = (if takeWhile isWord (dropWhile isDigit s) \<noteq> [] then takeWhile isDigit s
            else butlast (takeWhile isDigit s))"
proof -
  define ds where "ds = takeWhile isDigit s"
  define rest where "rest = dropWhile isDigit s"
  have dig: "list_all isDigit ds"
    unfolding ds_def list_all_iff by (auto dest: set_takeWhileD)
  have wrd: "list_all isWord (takeWhile isWord rest)"
    unfolding list_all_iff by (auto dest: set_takeWhileD)
  note m = assms [unfolded matchHere_eq, folded ds_def rest_def]
  show ?thesis
  proof (cases "takeWhile isWord rest = []")
    case False
    with m have "ds \<noteq> []" "g1 = ds" "g2 = takeWhile isWord rest"
      by (auto split: if_splits)
    with False dig wrd show ?thesis
      by (simp add: takeWhile_word_digits [of s] ds_def rest_def)
  next
    case True
    with m have ne: "ds \<noteq> []" and l: "2 \<le> length ds" and g: "g1 = butlast ds" "g2 = [last ds]"
      by (auto split: if_splits)
    from l have b: "butlast ds \<noteq> []" by (cases ds) (auto split: if_splits)
    from dig have d1: "list_all isDigit (butlast ds)"
      by (auto simp: list_all_iff dest: in_set_butlastD)
    from dig ne have "isDigit (last ds)" by (simp add: list_all_iff)
    then have w: "isWord (last ds)" by (rule digit_is_word)
    have "g1 @ g2 = ds" using g ne by simp
    with True g b d1 w show ?thesis
      by (simp add: takeWhile_word_digits [of s] ds_def [symmetric] rest_def [symmetric])
  qed
qed

lemma getEventDates_start:
  "fst (getEventDates lib now data) =
     (let (number, unit) = parseTimeDelay (timeDelay data)
      in if unit = ''weeks'' then addWeeks lib (currentDate now) number
         else if unit = ''months'' then addMonths lib (currentDate now) number
         else if unit = ''years'' then addYears lib (currentDate now) number
         else addWeeks lib (currentDate now) 1)"
  by (simp add: getEventDates_def parseTimeDelay_def units_def Let_def split: option.splits)

lemma getEventDates_end:
  "snd (getEventDates lib now data)
     = newDate (numPlus (getTime (fst (getEventDates lib now data))) (Some 1800000))"
  by (simp add: getEventDates_def Let_def)

subsection \<open>Resolving the token\<close>

lemma getEventDates_token:
  "getEventDates lib now (data\<lparr>timeDelay := td\<rparr>) = getEventDates lib now (data'\<lparr>timeDelay := td\<rparr>)"
  by (simp add: getEventDates_def)




text \<open>
  Claim C10, as the code has it. Matching is not anchored. Let the token be
  \<open>pre @ d # w # rest\<close>, where \<open>d\<close> is a digit, \<open>w\<close> a word character, and no digit of
  \<open>pre\<close> is followed by a word character: the first place where a digit is followed by a
  word character. Then the match starts at \<open>d\<close>: the two groups together are the run of
  word characters from \<open>d\<close> on; the first group is the run of digits from \<open>d\<close> on when a
  word character that is not a digit follows it, and that run without its last digit
  otherwise (the last digit is then the second group). The count is the number the first
  group spells and the unit is the second group; the start is the unit's function of the
  count when the unit is recognised and the one-week fallback when it is not.
\<close>

theorem unanchored_matching:
  assumes "s = pre @ d # w # rest" and "isDigit d" and "isWord w"
    and "\<forall>i<length pre. \<not> (isDigit (s ! i) \<and> isWord (s ! Suc i))"
  shows "\<exists>g1 g2. matchDelay s = Some (g1, g2)
      \<and> g1 \<noteq> [] \<and> list_all isDigit g1 \<and> g2 \<noteq> [] \<and> list_all isWord g2
      \<and> g1 @ g2 = takeWhile isWord (d # w # rest)
      \<and> g1 = (if takeWhile isWord (dropWhile isDigit (d # w # rest)) \<noteq> []
              then takeWhile isDigit (d # w # rest)
              else butlast (takeWhile isDigit (d # w # rest)))
      \<and> parseTimeDelay s = (parseInt g1, g2)
      \<and> fst (getEventDates lib now (data\<lparr>timeDelay := s\<rparr>))
          = (if g2 = ''weeks'' then addWeeks lib (currentDate now) (parseInt g1)
             else if g2 = ''months'' then addMonths lib (currentDate now) (parseInt g1)
             else if g2 = ''years'' then addYears lib (currentDate now) (parseInt g1)
             else addWeeks lib (currentDate now) 1)"
proof -
  have m: "matchDelay s = matchHere (d # w # rest)"
    by (rule matchDelay_first [OF assms])
  have "matchHere (d # w # rest) \<noteq> None"
    using assms(2,3) matchHere_Some_iff [of "d # w # rest"] by blast
  then obtain g1 g2 where g: "matchHere (d # w # rest) = Some (g1, g2)" by auto
  note grp = matchHere_groups [OF g]
  have p: "parseTimeDelay s = (parseInt g1, g2)"
    by (simp add: parseTimeDelay_def m g)
  have e: "fst (getEventDates lib now (data\<lparr>timeDelay := s\<rparr>))
          = (if g2 = ''weeks'' then addWeeks lib (currentDate now) (parseInt g1)
             else if g2 = ''months'' then addMonths lib (currentDate now) (parseInt g1)
             else if g2 = ''years'' then addYears lib (currentDate now) (parseInt g1)
             else addWeeks lib (currentDate now) 1)"
    by (simp add: getEventDates_start p)
  have mg: "matchDelay s = Some (g1, g2)" by (simp only: m g)
  show ?thesis
    by (intro exI [of _ g1] exI [of _ g2] conjI)
      (rule mg, rule grp [THEN conjunct1], rule grp [THEN conjunct2, THEN conjunct1],
        rule grp [THEN conjunct2, THEN conjunct2, THEN conjunct1],
        rule grp [THEN conjunct2, THEN conjunct2, THEN conjunct2, THEN conjunct1],
        rule grp [THEN conjunct2, THEN conjunct2, THEN conjunct2, THEN conjunct2, THEN conjunct1],
        rule grp [THEN conjunct2, THEN conjunct2, THEN conjunct2, THEN conjunct2, THEN conjunct2],
        rule p, rule e)
qed

text \<open>The theorem at the token \<^verbatim>\<open>x3weeks\<close>: it resolves to three weeks from now.\<close>

theorem unanchored_matching_witness:
  "isDigit (CHR ''3'') \<and> isWord (CHR ''w'')
   \<and> length ''x'' = 1 \<and> \<not> isDigit (''x3weeks'' ! 0)
   \<and> matchDelay ''x3weeks'' = Some (''3'', ''weeks'')
   \<and> parseTimeDelay ''x3weeks'' = (3, ''weeks'')
   \<and> fst (getEventDates (dateFns utcHost) exampleNow (exampleData\<lparr>timeDelay := ''x3weeks''\<rparr>))
       = addWeeks (dateFns utcHost) (currentDate exampleNow) 3"
proof -
  have a: "''x3weeks'' = ''x'' @ CHR ''3'' # CHR ''w'' # ''eeks''" by simp
  have b: "isDigit (CHR ''3'')" by (simp add: isDigit_def code_def)
  have c: "isWord (CHR ''w'')" by (simp add: isWord_def isLower_def code_def)
  have d: "\<forall>i<length ''x''. \<not> (isDigit (''x3weeks'' ! i) \<and> isWord (''x3weeks'' ! Suc i))"
    by (simp add: isDigit_def code_def)
  from unanchored_matching [OF a b c d, of "dateFns utcHost" exampleNow exampleData]
  obtain g1 g2 where m: "matchDelay ''x3weeks'' = Some (g1, g2)"
    and p: "parseTimeDelay ''x3weeks'' = (parseInt g1, g2)"
    and e: "fst (getEventDates (dateFns utcHost) exampleNow (exampleData\<lparr>timeDelay := ''x3weeks''\<rparr>))
          = (if g2 = ''weeks'' then addWeeks (dateFns utcHost) (currentDate exampleNow) (parseInt g1)
             else if g2 = ''months'' then addMonths (dateFns utcHost) (currentDate exampleNow) (parseInt g1)
             else if g2 = ''years'' then addYears (dateFns utcHost) (currentDate exampleNow) (parseInt g1)
             else addWeeks (dateFns utcHost) (currentDate exampleNow) 1)"
    by blast
  have v: "matchDelay ''x3weeks'' = Some (''3'', ''weeks'')" by code_simp
  with m have g: "g1 = ''3''" "g2 = ''weeks''" by simp_all
  have i: "parseInt ''3'' = 3" by code_simp
  have n: "length ''x'' = 1 \<and> \<not> isDigit (''x3weeks'' ! 0)"
    by (simp add: isDigit_def code_def)
  from b c n v p e show ?thesis by (simp add: g i del: matchDelay.simps)
qed

text \<open>
  Claim C10, as stated, fails at its own example \<^verbatim>\<open>12.5weeks\<close>. The first digit that a
  word character follows is the \<^verbatim>\<open>1\<close>, followed by \<^verbatim>\<open>2\<close>; the full stop ends the
  run, so the count is 1 and the unit is \<^verbatim>\<open>2\<close>, which is not recognised: the start is
  the one-week fallback (that of \<^verbatim>\<open>garbage\<close>), not five weeks from now.
\<close>

theorem unanchored_matching_counterexample:
  "parseTimeDelay ''12.5weeks'' = (1, ''2'')
   \<and> fst (getEventDates (dateFns utcHost) exampleNow (exampleData\<lparr>timeDelay := ''12.5weeks''\<rparr>))
       = fst (getEventDates (dateFns utcHost) exampleNow (exampleData\<lparr>timeDelay := ''garbage''\<rparr>))
   \<and> fst (getEventDates (dateFns utcHost) exampleNow (exampleData\<lparr>timeDelay := ''12.5weeks''\<rparr>))
       \<noteq> fst (getEventDates (dateFns utcHost) exampleNow (exampleData\<lparr>timeDelay := ''5weeks''\<rparr>))"
  by code_simp

lemma newDate_cases:
  "newDate (numPlus (getTime d) (Some k)) =
     (case d of InvalidDate \<Rightarrow> InvalidDate
      | TimeValue s \<Rightarrow> if \<bar>s + k\<bar> \<le> 8640000000000000 then TimeValue (s + k) else InvalidDate)"
  by (simp add: newDate_def numPlus_def getTime_def timeClip_def split: jsDate.splits)

lemma icsContent_dates:
  assumes "icsContent h lib stampNow uidNow now data = Inr ls"
  shows "ls ! 8 = ''DTSTART:'' @ formatDate h (fst (getEventDates lib now data))
    \<and> ls ! 9 = ''DTEND:'' @ formatDate h (snd (getEventDates lib now data))"
  using assms
  by (auto simp: icsContent_def Let_def split: sum.splits prod.splits)

text \<open>
  Claim C1, as the code has it. The end is \<^verbatim>\<open>new Date(startDate.getTime() + 30 * 60000)\<close>
  whatever the token, its count and its unit. When the start is a valid date of time
  value \<open>s\<close> and \<open>s + 1800000\<close> is a time value a date can hold (at most
  \<open>8.64 * 10^15\<close> in absolute value), the end is the date of time value \<open>s + 1800000\<close>:
  exactly 30 minutes later. When the sum is beyond that bound, or the start is an invalid
  date, the end is an invalid date. The lines \<^verbatim>\<open>DTSTART\<close> and \<^verbatim>\<open>DTEND\<close> of the file
  are written from this start and this end, in the earlier revision of the page as well.
\<close>

theorem event_duration:
  fixes lib :: DateFns and now :: int and data :: FormData
  defines "startDate \<equiv> fst (getEventDates lib now data)"
  defines "endDate \<equiv> snd (getEventDates lib now data)"
  shows "endDate = newDate (numPlus (getTime startDate) (Some (30 * 60000)))
    \<and> (\<forall>s. startDate = TimeValue s \<and> \<bar>s + 1800000\<bar> \<le> 8640000000000000
          \<longrightarrow> endDate = TimeValue (s + 1800000))
    \<and> (\<forall>s. startDate = TimeValue s \<and> 8640000000000000 < \<bar>s + 1800000\<bar>
          \<longrightarrow> endDate = InvalidDate)
    \<and> (startDate = InvalidDate \<longrightarrow> endDate = InvalidDate)
    \<and> (\<forall>h stampNow uidNow ls. icsContent h lib stampNow uidNow now data = Inr ls
          \<longrightarrow> ls ! 8 = ''DTSTART:'' @ formatDate h startDate
            \<and> ls ! 9 = ''DTEND:'' @ formatDate h endDate)
    \<and> (\<forall>h stampNow uidNow c. content data = Some c
          \<longrightarrow> generateICS_part000 h lib stampNow uidNow now data
              = generateICS h lib stampNow uidNow now data)"
proof -
  have e: "endDate = newDate (numPlus (getTime startDate) (Some 1800000))"
    unfolding endDate_def startDate_def by (rule getEventDates_end)
  have 1: "\<forall>s. startDate = TimeValue s \<and> \<bar>s + 1800000\<bar> \<le> 8640000000000000
          \<longrightarrow> endDate = TimeValue (s + 1800000)"
    unfolding e newDate_cases by simp
  have 2: "\<forall>s. startDate = TimeValue s \<and> 8640000000000000 < \<bar>s + 1800000\<bar>
          \<longrightarrow> endDate = InvalidDate"
    unfolding e newDate_cases by simp
  have 3: "startDate = InvalidDate \<longrightarrow> endDate = InvalidDate"
    unfolding e newDate_cases by simp
  have 4: "\<forall>h stampNow uidNow ls. icsContent h lib stampNow uidNow now data = Inr ls
          \<longrightarrow> ls ! 8 = ''DTSTART:'' @ formatDate h startDate
            \<and> ls ! 9 = ''DTEND:'' @ formatDate h endDate"
    unfolding startDate_def endDate_def by (intro allI impI) (rule icsContent_dates)
  have 5: "\<forall>h stampNow uidNow c. content data = Some c
          \<longrightarrow> generateICS_part000 h lib stampNow uidNow now data
              = generateICS h lib stampNow uidNow now data"
    by (intro allI impI) (rule generateICS_part000_eq)
  from e have e': "endDate = newDate (numPlus (getTime startDate) (Some (30 * 60000)))" by simp
  show ?thesis
    by (intro conjI) (rule e', rule 1, rule 2, rule 3, rule 4, rule 5)
qed

text \<open>The theorem at the example record, two months after 2024-01-31T10:00:00Z; at a
  start one second before the last representable instant, where the end is invalid; and at
  a token that makes the start itself invalid.\<close>

theorem event_duration_witness:
  "fst (getEventDates (dateFns utcHost) exampleNow exampleData) = TimeValue 1711879200000
   \<and> \<bar>1711879200000 + 1800000\<bar> \<le> (8640000000000000 :: int)
   \<and> snd (getEventDates (dateFns utcHost) exampleNow exampleData)
       = TimeValue (1711879200000 + 1800000)
   \<and> fst (getEventDates (dateFns utcHost) 1792195199000
         (exampleData\<lparr>timeDelay := ''14282751weeks''\<rparr>)) = TimeValue 8639999999999000
   \<and> (8640000000000000 :: int) < \<bar>8639999999999000 + 1800000\<bar>
   \<and> snd (getEventDates (dateFns utcHost) 1792195199000
         (exampleData\<lparr>timeDelay := ''14282751weeks''\<rparr>)) = InvalidDate
   \<and> fst (getEventDates (dateFns utcHost) exampleNow (exampleData\<lparr>timeDelay := ''999999years''\<rparr>))
       = InvalidDate
   \<and> snd (getEventDates (dateFns utcHost) exampleNow (exampleData\<lparr>timeDelay := ''999999years''\<rparr>))
       = InvalidDate
   \<and> projr (icsContent utcHost (dateFns utcHost) exampleNow exampleNow exampleNow exampleData) ! 8
       = ''DTSTART:20240331T100000''
   \<and> projr (icsContent utcHost (dateFns utcHost) exampleNow exampleNow exampleNow exampleData) ! 9
       = ''DTEND:20240331T103000''
   \<and> content exampleData = Some (''first'' @ [CHR 0x0A] @ ''second'')
   \<and> generateICS_part000 utcHost (dateFns utcHost) exampleNow exampleNow exampleNow exampleData
       = generateICS utcHost (dateFns utcHost) exampleNow exampleNow exampleNow exampleData"
proof -
  let ?big = "exampleData\<lparr>timeDelay := ''14282751weeks''\<rparr>"
  let ?inv = "exampleData\<lparr>timeDelay := ''999999years''\<rparr>"
  let ?c = "icsContent utcHost (dateFns utcHost) exampleNow exampleNow exampleNow exampleData"
  note e = event_duration [of "dateFns utcHost" exampleNow exampleData]
  note e2 = event_duration [of "dateFns utcHost" 1792195199000 ?big]
  note e3 = event_duration [of "dateFns utcHost" exampleNow ?inv]
  have s: "fst (getEventDates (dateFns utcHost) exampleNow exampleData) = TimeValue 1711879200000"
    by code_simp
  have b: "\<bar>1711879200000 + 1800000\<bar> \<le> (8640000000000000 :: int)" by simp
  from e [THEN conjunct2, THEN conjunct1, rule_format, OF conjI [OF s b]]
  have 1: "snd (getEventDates (dateFns utcHost) exampleNow exampleData)
      = TimeValue (1711879200000 + 1800000)" .
  have s2: "fst (getEventDates (dateFns utcHost) 1792195199000 ?big) = TimeValue 8639999999999000"
    by code_simp
  have b2: "(8640000000000000 :: int) < \<bar>8639999999999000 + 1800000\<bar>" by simp
  from e2 [THEN conjunct2, THEN conjunct2, THEN conjunct1, rule_format, OF conjI [OF s2 b2]]
  have 2: "snd (getEventDates (dateFns utcHost) 1792195199000 ?big) = InvalidDate" .
  have s3: "fst (getEventDates (dateFns utcHost) exampleNow ?inv) = InvalidDate"
    by code_simp
  from e3 [THEN conjunct2, THEN conjunct2, THEN conjunct2, THEN conjunct1, rule_format, OF s3]
  have 3: "snd (getEventDates (dateFns utcHost) exampleNow ?inv) = InvalidDate" .
  have "isl ?c = False" by code_simp
  then have c: "?c = Inr (projr ?c)" by (cases ?c) auto
  have f: "formatDate utcHost (fst (getEventDates (dateFns utcHost) exampleNow exampleData))
      = ''20240331T100000''"
    "formatDate utcHost (snd (getEventDates (dateFns utcHost) exampleNow exampleData))
      = ''20240331T103000''"
    by code_simp+
  from e [THEN conjunct2, THEN conjunct2, THEN conjunct2, THEN conjunct2, THEN conjunct1,
      rule_format, OF c]
  have 4: "projr ?c ! 8 = ''DTSTART:20240331T100000''" "projr ?c ! 9 = ''DTEND:20240331T103000''"
    by (simp_all only: f) simp_all
  have k: "content exampleData = Some (''first'' @ [CHR 0x0A] @ ''second'')"
    by (simp add: exampleData_def)
  from e [THEN conjunct2, THEN conjunct2, THEN conjunct2, THEN conjunct2, THEN conjunct2,
      rule_format, OF k]
  have 5: "generateICS_part000 utcHost (dateFns utcHost) exampleNow exampleNow exampleNow exampleData
       = generateICS utcHost (dateFns utcHost) exampleNow exampleNow exampleNow exampleData" .
  show ?thesis
    by (intro conjI) (rule s, rule b, rule 1, rule s2, rule b2, rule 2, rule s3, rule 3,
        rule 4(1), rule 4(2), rule k, rule 5)
qed

text \<open>
  Claim C1, as stated for every token and every anchor, fails. On a host in UTC, when
  the clock reads 2026-10-16T23:59:59Z the token \<^verbatim>\<open>14282751weeks\<close> resolves to a valid
  start one second before the last time value a date can hold, and the end is an invalid
  date, not the start plus 30 minutes. For the token \<^verbatim>\<open>999999years\<close> start and end are
  both invalid dates, so there is no duration at all.
\<close>

theorem event_duration_counterexample:
  "getEventDates (dateFns utcHost) 1792195199000 (exampleData\<lparr>timeDelay := ''14282751weeks''\<rparr>)
     = (TimeValue 8639999999999000, InvalidDate)
   \<and> getEventDates (dateFns utcHost) exampleNow (exampleData\<lparr>timeDelay := ''999999years''\<rparr>)
     = (InvalidDate, InvalidDate)"
  by code_simp

subsection \<open>The timestamps of the calendar file\<close>

lemma basicFormat_shape:
  assumes "0 \<le> YearFromTime t" "YearFromTime t \<le> 9999"
  shows "length (basicFormat t) = 15 \<and> list_all isDigit (take 8 (basicFormat t))
    \<and> basicFormat t ! 8 = CHR ''T'' \<and> list_all isDigit (drop 9 (basicFormat t))"
proof -
  define y where "y = four (YearFromTime t)"
  define mo where "mo = two (MonthFromTime t + 1)"
  define da where "da = two (DateFromTime t)"
  define ho where "ho = two (HourFromTime t)"
  define mi where "mi = two (MinFromTime t)"
  define se where "se = two (SecFromTime t)"
  have l: "length y = 4" "length mo = 2" "length da = 2" "length ho = 2" "length mi = 2"
    "length se = 2"
    using assms by (simp_all add: y_def mo_def da_def ho_def mi_def se_def four_length fields_length)
  have d: "list_all isDigit y" "list_all isDigit mo" "list_all isDigit da" "list_all isDigit ho"
    "list_all isDigit mi" "list_all isDigit se"
    using assms by (simp_all add: y_def mo_def da_def ho_def mi_def se_def four_digits fields_digits)
  define p where "p = y @ mo @ da"
  define q where "q = ho @ mi @ se"
  have lp: "length p = 8" and lq: "length q = 6" using l by (simp_all add: p_def q_def)
  have dp: "list_all isDigit p" and dq: "list_all isDigit q" using d by (simp_all add: p_def q_def)
  have b: "basicFormat t = p @ CHR ''T'' # q"
    by (simp add: basicFormat_def y_def mo_def da_def ho_def mi_def se_def p_def q_def)
  have 1: "length (basicFormat t) = 15" unfolding b using lp lq by simp
  have 2: "take 8 (basicFormat t) = p" unfolding b using lp by simp
  have "basicFormat t ! length p = CHR ''T''"
    unfolding b by (rule nth_append_length)
  then have 3: "basicFormat t ! 8 = CHR ''T''" by (simp only: lp)
  have 4: "drop 9 (basicFormat t) = q" unfolding b using lp by simp
  from 1 2 3 4 dp dq show ?thesis by simp
qed

lemma currentDate_valid: "\<bar>now\<bar> \<le> 8640000000000000 \<Longrightarrow> currentDate now = TimeValue now"
  by (simp add: currentDate_def timeClip_def)

lemma icsContent_stamp:
  assumes "icsContent h lib stampNow uidNow now data = Inr ls"
  shows "formatGoogleDate (currentDate stampNow) = Inr (drop 8 (ls ! 7)) \<and> take 8 (ls ! 7) = ''DTSTAMP:''"
  using assms
  by (auto simp: icsContent_def Let_def split: sum.splits prod.splits)

text \<open>
  Claim C3. In the lines of the file, \<^verbatim>\<open>DTSTART\<close> and \<^verbatim>\<open>DTEND\<close> carry
  \<^verbatim>\<open>formatDate\<close> of the start and of the end. For a valid date whose local year has
  four digits this is the basic format of its local time value, that is of the wall-clock
  fields of the host. For a valid date in general it is the local year, written unpadded
  with all its digits, before the part \<^verbatim>\<open>MMDDTHHMMSS\<close>; a year beyond 9999 so gives
  more than fifteen characters. For an invalid date it is \<^verbatim>\<open>NaNNaNNaNTNaNNaNNaN\<close>.
  \<^verbatim>\<open>DTSTAMP\<close> carries, for a clock reading in a year of up to four digits, the basic
  format of the reading itself, that is of its UTC fields, followed by \<^verbatim>\<open>Z\<close>, with no
  milliseconds. The basic format is fifteen characters: eight digits, the letter T, six
  digits; so the two event fields have no \<^verbatim>\<open>Z\<close> and no offset.
\<close>

theorem ics_timestamps:
  assumes "icsContent h lib stampNow uidNow now data = Inr ls"
  shows "(\<forall>t. fst (getEventDates lib now data) = TimeValue t
            \<and> 1000 \<le> YearFromTime (LocalTime h t) \<and> YearFromTime (LocalTime h t) \<le> 9999
          \<longrightarrow> ls ! 8 = ''DTSTART:'' @ basicFormat (LocalTime h t))
    \<and> (\<forall>t. snd (getEventDates lib now data) = TimeValue t
            \<and> 1000 \<le> YearFromTime (LocalTime h t) \<and> YearFromTime (LocalTime h t) \<le> 9999
          \<longrightarrow> ls ! 9 = ''DTEND:'' @ basicFormat (LocalTime h t))
    \<and> (\<forall>t. fst (getEventDates lib now data) = TimeValue t
          \<longrightarrow> ls ! 8 = ''DTSTART:'' @ intToString (YearFromTime (LocalTime h t))
                @ basicTail (LocalTime h t))
    \<and> (\<forall>t. snd (getEventDates lib now data) = TimeValue t
          \<longrightarrow> ls ! 9 = ''DTEND:'' @ intToString (YearFromTime (LocalTime h t))
                @ basicTail (LocalTime h t))
    \<and> (fst (getEventDates lib now data) = InvalidDate
          \<longrightarrow> ls ! 8 = ''DTSTART:NaNNaNNaNTNaNNaNNaN'')
    \<and> (snd (getEventDates lib now data) = InvalidDate
          \<longrightarrow> ls ! 9 = ''DTEND:NaNNaNNaNTNaNNaNNaN'')
    \<and> (\<bar>stampNow\<bar> \<le> 8640000000000000 \<and> 0 \<le> YearFromTime stampNow \<and> YearFromTime stampNow \<le> 9999
          \<longrightarrow> ls ! 7 = ''DTSTAMP:'' @ basicFormat stampNow @ ''Z'')
    \<and> (\<forall>t. 0 \<le> YearFromTime t \<and> YearFromTime t \<le> 9999
          \<longrightarrow> length (basicFormat t) = 15 \<and> list_all isDigit (take 8 (basicFormat t))
            \<and> basicFormat t ! 8 = CHR ''T'' \<and> list_all isDigit (drop 9 (basicFormat t)))
    \<and> (\<forall>y t. 9999 < y \<longrightarrow> 15 < length (intToString y @ basicTail t))"
proof -
  note d = icsContent_dates [OF assms]
  have 1: "\<forall>t. fst (getEventDates lib now data) = TimeValue t
            \<and> 1000 \<le> YearFromTime (LocalTime h t) \<and> YearFromTime (LocalTime h t) \<le> 9999
          \<longrightarrow> ls ! 8 = ''DTSTART:'' @ basicFormat (LocalTime h t)"
    using d by (auto simp: formatDate_basic)
  have 2: "\<forall>t. snd (getEventDates lib now data) = TimeValue t
            \<and> 1000 \<le> YearFromTime (LocalTime h t) \<and> YearFromTime (LocalTime h t) \<le> 9999
          \<longrightarrow> ls ! 9 = ''DTEND:'' @ basicFormat (LocalTime h t)"
    using d by (auto simp: formatDate_basic)
  have 3: "\<forall>t. fst (getEventDates lib now data) = TimeValue t
          \<longrightarrow> ls ! 8 = ''DTSTART:'' @ intToString (YearFromTime (LocalTime h t))
                @ basicTail (LocalTime h t)"
    using d by (auto simp: formatDate_valid)
  have 4: "\<forall>t. snd (getEventDates lib now data) = TimeValue t
          \<longrightarrow> ls ! 9 = ''DTEND:'' @ intToString (YearFromTime (LocalTime h t))
                @ basicTail (LocalTime h t)"
    using d by (auto simp: formatDate_valid)
  have 5: "fst (getEventDates lib now data) = InvalidDate
          \<longrightarrow> ls ! 8 = ''DTSTART:NaNNaNNaNTNaNNaNNaN''"
    using d by (auto simp: formatDate_invalid)
  have 6: "snd (getEventDates lib now data) = InvalidDate
          \<longrightarrow> ls ! 9 = ''DTEND:NaNNaNNaNTNaNNaNNaN''"
    using d by (auto simp: formatDate_invalid)
  have 7: "\<bar>stampNow\<bar> \<le> 8640000000000000 \<and> 0 \<le> YearFromTime stampNow \<and> YearFromTime stampNow \<le> 9999
          \<longrightarrow> ls ! 7 = ''DTSTAMP:'' @ basicFormat stampNow @ ''Z''"
  proof (intro impI, elim conjE)
    assume a: "\<bar>stampNow\<bar> \<le> 8640000000000000" "0 \<le> YearFromTime stampNow"
      "YearFromTime stampNow \<le> 9999"
    from icsContent_stamp [OF assms] have s: "formatGoogleDate (currentDate stampNow) = Inr (drop 8 (ls ! 7))"
      and p: "take 8 (ls ! 7) = ''DTSTAMP:''" by simp_all
    from s have "drop 8 (ls ! 7) = basicFormat stampNow @ ''Z''"
      by (simp add: currentDate_valid [OF a(1)] formatGoogleDate_basic [OF a(2,3)])
    with p append_take_drop_id [of 8 "ls ! 7"] show "ls ! 7 = ''DTSTAMP:'' @ basicFormat stampNow @ ''Z''"
      by simp
  qed
  have 8: "\<forall>t. 0 \<le> YearFromTime t \<and> YearFromTime t \<le> 9999
          \<longrightarrow> length (basicFormat t) = 15 \<and> list_all isDigit (take 8 (basicFormat t))
            \<and> basicFormat t ! 8 = CHR ''T'' \<and> list_all isDigit (drop 9 (basicFormat t))"
    by (intro allI impI, elim conjE) (rule basicFormat_shape)
  have 9: "\<forall>y t. 9999 < y \<longrightarrow> 15 < length (intToString y @ basicTail t)"
  proof (intro allI impI)
    fix y t :: int
    assume "9999 < y"
    with digitsOf_length_ge5 [of y] show "15 < length (intToString y @ basicTail t)"
      by (simp add: basicTail_length intToString_def)
  qed
  show ?thesis
    by (intro conjI) (rule 1, rule 2, rule 3, rule 4, rule 5, rule 6, rule 7, rule 8, rule 9)
qed

text \<open>The theorem on the host two hours east of UTC, at the clock reading with 45 seconds
  and 678 milliseconds: the event fields show the local hour 12, the stamp shows the UTC
  hour 10, neither shows the milliseconds; the token \<^verbatim>\<open>9000years\<close> gives a year of five
  digits, the token \<^verbatim>\<open>999999years\<close> an invalid end.\<close>

theorem ics_timestamps_witness:
  "icsContent eastHost (dateFns eastHost) exampleClock exampleClock exampleClock exampleData
     = Inr (projr (icsContent eastHost (dateFns eastHost) exampleClock exampleClock exampleClock
         exampleData))
   \<and> projr (icsContent eastHost (dateFns eastHost) exampleClock exampleClock exampleClock
         exampleData) ! 7 = ''DTSTAMP:20240131T100045Z''
   \<and> projr (icsContent eastHost (dateFns eastHost) exampleClock exampleClock exampleClock
         exampleData) ! 8 = ''DTSTART:20240331T120045''
   \<and> projr (icsContent eastHost (dateFns eastHost) exampleClock exampleClock exampleClock
         exampleData) ! 9 = ''DTEND:20240331T123045''
   \<and> projr (icsContent eastHost (dateFns eastHost) exampleClock exampleClock exampleClock
         (exampleData\<lparr>timeDelay := ''9000years''\<rparr>)) ! 8 = ''DTSTART:110240131T120045''
   \<and> projr (icsContent eastHost (dateFns eastHost) exampleClock exampleClock exampleClock
         (exampleData\<lparr>timeDelay := ''999999years''\<rparr>)) ! 9 = ''DTEND:NaNNaNNaNTNaNNaNNaN''
   \<and> YearFromTime exampleClock = 2024
   \<and> length (basicFormat exampleClock) = 15 \<and> list_all isDigit (take 8 (basicFormat exampleClock))
   \<and> basicFormat exampleClock ! 8 = CHR ''T'' \<and> list_all isDigit (drop 9 (basicFormat exampleClock))
   \<and> 15 < length (intToString 11024 @ basicTail exampleClock)"
proof -
  let ?c = "icsContent eastHost (dateFns eastHost) exampleClock exampleClock exampleClock exampleData"
  let ?far = "exampleData\<lparr>timeDelay := ''9000years''\<rparr>"
  let ?f = "icsContent eastHost (dateFns eastHost) exampleClock exampleClock exampleClock ?far"
  let ?inv = "exampleData\<lparr>timeDelay := ''999999years''\<rparr>"
  let ?i = "icsContent eastHost (dateFns eastHost) exampleClock exampleClock exampleClock ?inv"
  have "isl ?c = False" by code_simp
  then have c: "?c = Inr (projr ?c)" by (cases ?c) auto
  have "isl ?f = False" by code_simp
  then have f: "?f = Inr (projr ?f)" by (cases ?f) auto
  have "isl ?i = False" by code_simp
  then have i: "?i = Inr (projr ?i)" by (cases ?i) auto
  note t = ics_timestamps [OF c]
  note tf = ics_timestamps [OF f]
  note ti = ics_timestamps [OF i]
  have s: "fst (getEventDates (dateFns eastHost) exampleClock exampleData) = TimeValue 1711879245678
      \<and> 1000 \<le> YearFromTime (LocalTime eastHost 1711879245678)
      \<and> YearFromTime (LocalTime eastHost 1711879245678) \<le> 9999"
    by code_simp
  have e: "snd (getEventDates (dateFns eastHost) exampleClock exampleData) = TimeValue 1711881045678
      \<and> 1000 \<le> YearFromTime (LocalTime eastHost 1711881045678)
      \<and> YearFromTime (LocalTime eastHost 1711881045678) \<le> 9999"
    by code_simp
  have n: "\<bar>exampleClock\<bar> \<le> 8640000000000000 \<and> 0 \<le> YearFromTime exampleClock
      \<and> YearFromTime exampleClock \<le> 9999"
    by code_simp
  have sf: "fst (getEventDates (dateFns eastHost) exampleClock ?far) = TimeValue 285719220045678"
    by code_simp
  have si: "snd (getEventDates (dateFns eastHost) exampleClock ?inv) = InvalidDate"
    by code_simp
  have b: "basicFormat (LocalTime eastHost 1711879245678) = ''20240331T120045''"
    "basicFormat (LocalTime eastHost 1711881045678) = ''20240331T123045''"
    "basicFormat exampleClock = ''20240131T100045''"
    "intToString (YearFromTime (LocalTime eastHost 285719220045678))
       @ basicTail (LocalTime eastHost 285719220045678) = ''110240131T120045''"
    by code_simp+
  from t [THEN conjunct1, rule_format, OF s]
  have 8: "projr ?c ! 8 = ''DTSTART:20240331T120045''" by (simp add: b)
  from t [THEN conjunct2, THEN conjunct1, rule_format, OF e]
  have 9: "projr ?c ! 9 = ''DTEND:20240331T123045''" by (simp add: b)
  from tf [THEN conjunct2, THEN conjunct2, THEN conjunct1, rule_format, OF sf]
  have 10: "projr ?f ! 8 = ''DTSTART:110240131T120045''" by (simp add: b)
  from ti [THEN conjunct2, THEN conjunct2, THEN conjunct2, THEN conjunct2, THEN conjunct2,
      THEN conjunct1, rule_format, OF si]
  have 11: "projr ?i ! 9 = ''DTEND:NaNNaNNaNTNaNNaNNaN''" .
  from t [THEN conjunct2, THEN conjunct2, THEN conjunct2, THEN conjunct2, THEN conjunct2,
      THEN conjunct2, THEN conjunct1, rule_format, OF n]
  have 7: "projr ?c ! 7 = ''DTSTAMP:20240131T100045Z''" by (simp add: b)
  have y: "YearFromTime exampleClock = 2024" by code_simp
  then have y': "0 \<le> YearFromTime exampleClock \<and> YearFromTime exampleClock \<le> 9999" by simp
  note g = t [THEN conjunct2, THEN conjunct2, THEN conjunct2, THEN conjunct2, THEN conjunct2,
      THEN conjunct2, THEN conjunct2, THEN conjunct1, rule_format, OF y']
  have "(9999 :: int) < 11024" by simp
  note l = t [THEN conjunct2, THEN conjunct2, THEN conjunct2, THEN conjunct2, THEN conjunct2,
      THEN conjunct2, THEN conjunct2, THEN conjunct2, rule_format, OF this, of exampleClock]
  show ?thesis
    by (intro conjI) (rule c, rule 7, rule 8, rule 9, rule 10, rule 11, rule y,
        rule g [THEN conjunct1], rule g [THEN conjunct2, THEN conjunct1],
        rule g [THEN conjunct2, THEN conjunct2, THEN conjunct1],
        rule g [THEN conjunct2, THEN conjunct2, THEN conjunct2], rule l)
qed

text \<open>On the UTC host at the example instant, the token \<^verbatim>\<open>9000years\<close> resolves to
  the year 11024 and the two fields have sixteen characters after the name; the token
  \<^verbatim>\<open>999999years\<close> resolves to an invalid date and the two fields have no digit.\<close>

theorem ics_timestamps_counterexample:
  "map_sum id (\<lambda>ls. (ls ! 8, ls ! 9))
     (icsContent utcHost (dateFns utcHost) exampleNow exampleNow exampleNow
        (exampleData\<lparr>timeDelay := ''9000years''\<rparr>))
     = Inr (''DTSTART:110240131T100000'', ''DTEND:110240131T103000'')
   \<and> map_sum id (\<lambda>ls. (ls ! 8, ls ! 9))
     (icsContent utcHost (dateFns utcHost) exampleNow exampleNow exampleNow
        (exampleData\<lparr>timeDelay := ''999999years''\<rparr>))
     = Inr (''DTSTART:NaNNaNNaNTNaNNaNNaN'', ''DTEND:NaNNaNNaNTNaNNaNNaN'')"
  by code_simp

subsection \<open>The provider links\<close>






































subsection \<open>The round trip of the calendar file\<close>

lemma hasPair_Cons: "c \<noteq> a \<Longrightarrow> hasPair a b (c # s) = hasPair a b s"
  by (cases s) auto

lemma hasPair_absent: "b \<notin> set s \<Longrightarrow> \<not> hasPair a b s"
  by (induction a b s rule: hasPair.induct) auto

lemma splitCRLF_line: "\<not> hasPair (CHR 0x0D) (CHR 0x0A) x \<Longrightarrow> splitCRLF x = [x]"
  by (induction x rule: splitCRLF.induct) auto

lemma splitCRLF_append:
  "\<not> hasPair (CHR 0x0D) (CHR 0x0A) x \<Longrightarrow> splitCRLF (x @ CRLF @ rest) = x # splitCRLF rest"
  by (induction x rule: splitCRLF.induct) (auto simp: CRLF_def)

lemma splitCRLF_join:
  "ls \<noteq> [] \<Longrightarrow> list_all (\<lambda>l. \<not> hasPair (CHR 0x0D) (CHR 0x0A) l) ls \<Longrightarrow>
   splitCRLF (joinWith CRLF ls) = ls"
  by (induction CRLF ls rule: joinWith.induct) (simp_all add: splitCRLF_line splitCRLF_append)

lemma escape_head:
  "escapeNewlines (c # cs) = (if c = CHR 0x0A then [CHR 0x5C, CHR ''n''] else [c]) @ escapeNewlines cs"
  by (simp add: escapeNewlines_def)

lemma escape_Nil: "escapeNewlines [] = []"
  by (simp add: escapeNewlines_def)

lemma escape_no_LF: "CHR 0x0A \<notin> set (escapeNewlines s)"
  by (induction s) (auto simp: escape_Nil escape_head)

lemma unescape_escape:
  "\<not> hasPair (CHR 0x5C) (CHR ''n'') s \<Longrightarrow> unescapeNewlines (escapeNewlines s) = s"
proof (induction s)
  case Nil
  show ?case by (simp add: escape_Nil)
next
  case (Cons c cs)
  show ?case
  proof (cases cs)
    case Nil
    then show ?thesis by (simp add: escape_head escape_Nil)
  next
    case (Cons d ds)
    with Cons.prems have np: "\<not> (c = CHR 0x5C \<and> d = CHR ''n'')" and nh: "\<not> hasPair (CHR 0x5C) (CHR ''n'') cs"
      by simp_all
    from Cons.IH [OF nh] have ih: "unescapeNewlines (escapeNewlines cs) = cs" .
    show ?thesis
    proof (cases "c = CHR 0x0A")
      case True
      then show ?thesis by (simp add: escape_head ih)
    next
      case False
      have e: "escapeNewlines cs = (if d = CHR 0x0A then [CHR 0x5C, CHR ''n''] else [d]) @ escapeNewlines ds"
        by (simp add: Cons escape_head)
      show ?thesis
      proof (cases "d = CHR 0x0A")
        case True
        with False e ih show ?thesis by (auto simp: escape_head)
      next
        case dF: False
        with False e ih np show ?thesis by (auto simp: escape_head)
      qed
    qed
  qed
qed


lemma noLF_digits: "list_all isDigit s \<Longrightarrow> CHR 0x0A \<notin> set s"
  by (auto simp: list_all_iff isDigit_def code_def)

lemma noLF_intToString: "CHR 0x0A \<notin> set (intToString n)"
  by (simp add: intToString_def noLF_digits digitsOf_digits)

lemma noLF_numberToString: "CHR 0x0A \<notin> set (numberToString x)"
  by (cases x) (simp_all add: numberToString_def noLF_intToString)

lemma noLF_padStart: "CHR 0x0A \<notin> set s \<Longrightarrow> CHR 0x0A \<notin> set (padStart n (CHR ''0'') s)"
  by (simp add: padStart_def)

lemma noLF_formatDate: "CHR 0x0A \<notin> set (formatDate h d)"
  by (simp add: formatDate_def Let_def noLF_padStart noLF_numberToString)

lemma noLF_two: "0 \<le> n \<Longrightarrow> CHR 0x0A \<notin> set (two n)"
  by (rule noLF_digits) (rule two_digits)

lemma noLF_isoYear: "CHR 0x0A \<notin> set (isoYear y)"
  by (simp add: isoYear_def noLF_padStart noLF_digits digitsOf_digits)

lemma noLF_toISOString: "toISOString d = Inr s \<Longrightarrow> CHR 0x0A \<notin> set s"
  by (cases d)
    (auto simp: toISOString_def noLF_isoYear noLF_two time_field_bounds date_field_bounds
      noLF_padStart noLF_digits digitsOf_digits)

lemma stripMillis_set: "set (stripMillis s) \<subseteq> set s"
  by (induction s) (auto dest: in_set_dropD)

lemma noLF_stamp: "formatGoogleDate d = Inr s \<Longrightarrow> CHR 0x0A \<notin> set s"
proof -
  assume a: "formatGoogleDate d = Inr s"
  then obtain iso where i: "toISOString d = Inr iso" and s: "s = stripMillis (stripDashColon iso)"
    by (auto simp: formatGoogleDate_def split: sum.splits)
  from noLF_toISOString [OF i] have "CHR 0x0A \<notin> set (stripDashColon iso)"
    by (simp add: stripDashColon_def)
  with stripMillis_set [of "stripDashColon iso"] show ?thesis unfolding s by blast
qed

lemma icsContent_lines:
  assumes "icsContent h lib stampNow uidNow now data = Inr ls"
  obtains dtstamp where "formatGoogleDate (currentDate stampNow) = Inr dtstamp"
    and "ls = [''BEGIN:VCALENDAR'', ''VERSION:2.0'', ''PRODID:-//ReCal//ReCal 1.0//EN'',
               ''CALSCALE:GREGORIAN'', ''METHOD:PUBLISH'', ''BEGIN:VEVENT'',
               ''UID:'' @ intToString uidNow @ ''@recal.app'',
               ''DTSTAMP:'' @ dtstamp,
               ''DTSTART:'' @ formatDate h (fst (getEventDates lib now data)),
               ''DTEND:'' @ formatDate h (snd (getEventDates lib now data)),
               ''SUMMARY:'' @ title data,
               ''DESCRIPTION:'' @ escapeNewlines (contentOrEmpty data),
               ''END:VEVENT'', ''END:VCALENDAR'']"
  using assms
  by (auto simp: icsContent_def Let_def split: sum.splits prod.splits)

lemma hasPair_const:
  "c \<noteq> CHR 0x0D \<Longrightarrow> hasPair (CHR 0x0D) (CHR 0x0A) (c # s) = hasPair (CHR 0x0D) (CHR 0x0A) s"
  by (rule hasPair_Cons)

lemma icsContent_no_CRLF:
  assumes "icsContent h lib stampNow uidNow now data = Inr ls"
    and "\<not> hasPair (CHR 0x0D) (CHR 0x0A) (title data)"
  shows "list_all (\<lambda>l. \<not> hasPair (CHR 0x0D) (CHR 0x0A) l) ls"
proof -
  from assms(1) obtain dtstamp where st: "formatGoogleDate (currentDate stampNow) = Inr dtstamp"
    and ls: "ls = [''BEGIN:VCALENDAR'', ''VERSION:2.0'', ''PRODID:-//ReCal//ReCal 1.0//EN'',
               ''CALSCALE:GREGORIAN'', ''METHOD:PUBLISH'', ''BEGIN:VEVENT'',
               ''UID:'' @ intToString uidNow @ ''@recal.app'',
               ''DTSTAMP:'' @ dtstamp,
               ''DTSTART:'' @ formatDate h (fst (getEventDates lib now data)),
               ''DTEND:'' @ formatDate h (snd (getEventDates lib now data)),
               ''SUMMARY:'' @ title data,
               ''DESCRIPTION:'' @ escapeNewlines (contentOrEmpty data),
               ''END:VEVENT'', ''END:VCALENDAR'']"
    by (rule icsContent_lines)
  have u: "\<not> hasPair (CHR 0x0D) (CHR 0x0A) (intToString uidNow @ ''@recal.app'')"
    by (rule hasPair_absent) (simp add: noLF_intToString)
  have s: "\<not> hasPair (CHR 0x0D) (CHR 0x0A) dtstamp"
    by (rule hasPair_absent) (rule noLF_stamp [OF st])
  have d: "\<And>x. \<not> hasPair (CHR 0x0D) (CHR 0x0A) (formatDate h x)"
    by (rule hasPair_absent) (rule noLF_formatDate)
  have e: "\<not> hasPair (CHR 0x0D) (CHR 0x0A) (escapeNewlines (contentOrEmpty data))"
    by (rule hasPair_absent) (rule escape_no_LF)
  show ?thesis
    unfolding ls using u s d e assms(2) by (simp add: hasPair_const)
qed

lemma icsContent_properties:
  assumes "icsContent h lib stampNow uidNow now data = Inr ls"
  shows "propertyValue ''SUMMARY'' ls = Some (title data)
    \<and> propertyValue ''DESCRIPTION'' ls = Some (escapeNewlines (contentOrEmpty data))
    \<and> propertyValue ''DTSTART'' ls = Some (formatDate h (fst (getEventDates lib now data)))
    \<and> propertyValue ''DTEND'' ls = Some (formatDate h (snd (getEventDates lib now data)))"
proof -
  from assms(1) obtain dtstamp where
    ls: "ls = [''BEGIN:VCALENDAR'', ''VERSION:2.0'', ''PRODID:-//ReCal//ReCal 1.0//EN'',
               ''CALSCALE:GREGORIAN'', ''METHOD:PUBLISH'', ''BEGIN:VEVENT'',
               ''UID:'' @ intToString uidNow @ ''@recal.app'',
               ''DTSTAMP:'' @ dtstamp,
               ''DTSTART:'' @ formatDate h (fst (getEventDates lib now data)),
               ''DTEND:'' @ formatDate h (snd (getEventDates lib now data)),
               ''SUMMARY:'' @ title data,
               ''DESCRIPTION:'' @ escapeNewlines (contentOrEmpty data),
               ''END:VEVENT'', ''END:VCALENDAR'']"
    by (rule icsContent_lines)
  show ?thesis unfolding ls by (simp add: propertyValue_def)
qed

lemma digitValue_digitChar: "0 \<le> n \<Longrightarrow> n < 10 \<Longrightarrow> digitValue (digitChar n) = n"
  by (simp add: digitValue_def digitChar_def code_char_of)

lemma parseInt_digits: "list_all isDigit s \<Longrightarrow> parseInt s = foldl (\<lambda>n c. 10 * n + digitValue c) 0 s"
proof -
  assume "list_all isDigit s"
  then have "takeWhile isDigit s = s" by (simp add: list_all_iff takeWhile_eq_all_conv)
  then show ?thesis by (simp only: parseInt_def)
qed

lemma parseInt_snoc:
  "list_all isDigit s \<Longrightarrow> isDigit c \<Longrightarrow> parseInt (s @ [c]) = 10 * parseInt s + digitValue c"
  by (simp add: parseInt_digits)

lemma parseInt_digitsOf: "0 \<le> n \<Longrightarrow> parseInt (digitsOf n) = n"
proof (induction n rule: digitsOf.induct)
  case (1 n)
  show ?case
  proof (cases "n < 10")
    case True
    with 1(2) show ?thesis
      by (simp add: digitsOf.simps [of n] parseInt_digits isDigit_digitChar digitValue_digitChar)
  next
    case False
    with 1 have ih: "parseInt (digitsOf (n div 10)) = n div 10" by simp
    have d: "list_all isDigit (digitsOf (n div 10))" using 1(2) by (simp add: digitsOf_digits)
    have c: "isDigit (digitChar (n mod 10))" by (simp add: isDigit_digitChar)
    have v: "digitValue (digitChar (n mod 10)) = n mod 10" by (simp add: digitValue_digitChar)
    from False show ?thesis
      by (simp add: digitsOf.simps [of n] parseInt_snoc [OF d c] ih v)
  qed
qed

lemma foldl_zeros:
  "foldl (\<lambda>n c. 10 * n + digitValue c) 0 (replicate k (CHR ''0'') @ s)
     = foldl (\<lambda>n c. 10 * n + digitValue c) 0 s"
  by (induction k) (simp_all add: digitValue_def code_def)

lemma parseInt_padStart:
  "0 \<le> n \<Longrightarrow> parseInt (padStart k (CHR ''0'') (digitsOf n)) = n"
proof -
  assume n: "0 \<le> n"
  have "list_all isDigit (padStart k (CHR ''0'') (digitsOf n))"
    by (simp add: padStart_digits digitsOf_digits n)
  then have "parseInt (padStart k (CHR ''0'') (digitsOf n))
      = foldl (\<lambda>n c. 10 * n + digitValue c) 0 (padStart k (CHR ''0'') (digitsOf n))"
    by (rule parseInt_digits)
  also have "\<dots> = foldl (\<lambda>n c. 10 * n + digitValue c) 0 (digitsOf n)"
    unfolding padStart_def by (rule foldl_zeros)
  also have "\<dots> = parseInt (digitsOf n)"
    by (rule parseInt_digits [symmetric]) (simp add: digitsOf_digits n)
  also have "\<dots> = n" by (rule parseInt_digitsOf [OF n])
  finally show ?thesis .
qed

lemma readBasic_basicFormat:
  assumes "0 \<le> YearFromTime t" "YearFromTime t \<le> 9999"
  shows "readBasic (basicFormat t) = Some (calendarFields t)"
proof -
  define y where "y = four (YearFromTime t)"
  define mo where "mo = two (MonthFromTime t + 1)"
  define da where "da = two (DateFromTime t)"
  define ho where "ho = two (HourFromTime t)"
  define mi where "mi = two (MinFromTime t)"
  define se where "se = two (SecFromTime t)"
  have l: "length y = 4" "length mo = 2" "length da = 2" "length ho = 2" "length mi = 2"
    "length se = 2"
    using assms by (simp_all add: y_def mo_def da_def ho_def mi_def se_def four_length fields_length)
  have v: "parseInt y = YearFromTime t" "parseInt mo = MonthFromTime t + 1"
    "parseInt da = DateFromTime t" "parseInt ho = HourFromTime t" "parseInt mi = MinFromTime t"
    "parseInt se = SecFromTime t"
    using assms
    by (simp_all add: y_def mo_def da_def ho_def mi_def se_def four_def two_def parseInt_padStart
        time_field_bounds date_field_bounds)
  have b: "basicFormat t = y @ mo @ da @ CHR ''T'' # ho @ mi @ se"
    by (simp add: basicFormat_def y_def mo_def da_def ho_def mi_def se_def)
  have t: "take 4 (basicFormat t) = y" "take 2 (drop 4 (basicFormat t)) = mo"
    "take 2 (drop 6 (basicFormat t)) = da" "take 2 (drop 9 (basicFormat t)) = ho"
    "take 2 (drop 11 (basicFormat t)) = mi" "take 2 (drop 13 (basicFormat t)) = se"
    unfolding b using l by simp_all
  from basicFormat_shape [OF assms] show ?thesis
    by (simp add: readBasic_def t v calendarFields_def)
qed

text \<open>
  Claim C4, as the code has it. Let the title have no CRLF in it and the content no
  backslash followed by the letter n. Then reading the generated document back gives the
  title (from \<^verbatim>\<open>SUMMARY\<close>), the content, with every escaped line feed restored (from
  \<^verbatim>\<open>DESCRIPTION\<close>; an absent content reads as the empty one), and the texts of
  \<^verbatim>\<open>DTSTART\<close> and \<^verbatim>\<open>DTEND\<close> exactly as \<^verbatim>\<open>formatDate\<close> wrote them. The value of
  \<^verbatim>\<open>DESCRIPTION\<close> is the content with each line feed replaced by a backslash and the
  letter n, and nothing else changed. For a valid date whose local year has four digits
  the text \<^verbatim>\<open>formatDate\<close> writes gives back its local calendar fields, from the year
  down to the second.
\<close>

theorem ics_round_trip:
  assumes "generateICS h lib stampNow uidNow now data = Inr doc"
    and "\<not> hasPair (CHR 0x0D) (CHR 0x0A) (title data)"
    and "\<not> hasPair (CHR 0x5C) (CHR ''n'') (contentOrEmpty data)"
  shows "readICS doc
      = Some \<lparr>summary = title data, description = contentOrEmpty data,
              dtstart = formatDate h (fst (getEventDates lib now data)),
              dtend = formatDate h (snd (getEventDates lib now data))\<rparr>
    \<and> propertyValue ''DESCRIPTION'' (splitCRLF doc)
        = Some (escapeNewlines (contentOrEmpty data))
    \<and> escapeNewlines (contentOrEmpty data)
        = concat (map (\<lambda>c. if c = CHR 0x0A then [CHR 0x5C, CHR ''n''] else [c])
            (contentOrEmpty data))
    \<and> (\<forall>t. 1000 \<le> YearFromTime (LocalTime h t) \<and> YearFromTime (LocalTime h t) \<le> 9999
          \<longrightarrow> readBasic (formatDate h (TimeValue t)) = Some (calendarFields (LocalTime h t)))"
proof -
  from assms(1) obtain ls where ls: "icsContent h lib stampNow uidNow now data = Inr ls"
    and doc: "doc = joinWith CRLF ls"
    by (auto simp: generateICS_def split: sum.splits)
  from icsContent_shape [OF ls] have ne: "ls \<noteq> []" by auto
  have sp: "splitCRLF doc = ls"
    unfolding doc by (rule splitCRLF_join [OF ne icsContent_no_CRLF [OF ls assms(2)]])
  note pv = icsContent_properties [OF ls]
  have r: "readICS doc
      = Some \<lparr>summary = title data, description = contentOrEmpty data,
              dtstart = formatDate h (fst (getEventDates lib now data)),
              dtend = formatDate h (snd (getEventDates lib now data))\<rparr>"
    by (simp add: readICS_def sp pv unescape_escape [OF assms(3)])
  have d: "propertyValue ''DESCRIPTION'' (splitCRLF doc)
        = Some (escapeNewlines (contentOrEmpty data))"
    by (simp add: sp pv)
  have f: "\<forall>t. 1000 \<le> YearFromTime (LocalTime h t) \<and> YearFromTime (LocalTime h t) \<le> 9999
          \<longrightarrow> readBasic (formatDate h (TimeValue t)) = Some (calendarFields (LocalTime h t))"
    by (auto simp: formatDate_basic readBasic_basicFormat)
  show ?thesis
    by (intro conjI) (rule r, rule d, rule escapeNewlines_def, rule f)
qed

text \<open>The theorem at the example record on the host two hours east of UTC.\<close>

theorem ics_round_trip_witness:
  "generateICS eastHost (dateFns eastHost) exampleNow exampleNow exampleNow exampleData
     = Inr (projr (generateICS eastHost (dateFns eastHost) exampleNow exampleNow exampleNow
         exampleData))
   \<and> \<not> hasPair (CHR 0x0D) (CHR 0x0A) (title exampleData)
   \<and> \<not> hasPair (CHR 0x5C) (CHR ''n'') (contentOrEmpty exampleData)
   \<and> readICS (projr (generateICS eastHost (dateFns eastHost) exampleNow exampleNow exampleNow
         exampleData))
       = Some \<lparr>summary = ''Revisit: My Decision!!'',
               description = ''first'' @ [CHR 0x0A] @ ''second'',
               dtstart = ''20240331T120000'', dtend = ''20240331T123000''\<rparr>
   \<and> 1000 \<le> YearFromTime (LocalTime eastHost 1711879200000)
   \<and> YearFromTime (LocalTime eastHost 1711879200000) \<le> 9999
   \<and> readBasic (formatDate eastHost (TimeValue 1711879200000)) = Some (2024, 3, 31, 12, 0, 0)"
proof -
  let ?g = "generateICS eastHost (dateFns eastHost) exampleNow exampleNow exampleNow exampleData"
  have "isl ?g = False" by code_simp
  then have g: "?g = Inr (projr ?g)" by (cases ?g) auto
  have t: "\<not> hasPair (CHR 0x0D) (CHR 0x0A) (title exampleData)" by code_simp
  have c: "\<not> hasPair (CHR 0x5C) (CHR ''n'') (contentOrEmpty exampleData)" by code_simp
  note r = ics_round_trip [OF g t c]
  have v: "title exampleData = ''Revisit: My Decision!!''"
    "contentOrEmpty exampleData = ''first'' @ [CHR 0x0A] @ ''second''"
    "formatDate eastHost (fst (getEventDates (dateFns eastHost) exampleNow exampleData))
      = ''20240331T120000''"
    "formatDate eastHost (snd (getEventDates (dateFns eastHost) exampleNow exampleData))
      = ''20240331T123000''"
    "calendarFields (LocalTime eastHost 1711879200000) = (2024, 3, 31, 12, 0, 0)"
    by code_simp+
  have y: "1000 \<le> YearFromTime (LocalTime eastHost 1711879200000)
      \<and> YearFromTime (LocalTime eastHost 1711879200000) \<le> 9999"
    by code_simp
  from r [THEN conjunct1]
  have 1: "readICS (projr ?g)
       = Some \<lparr>summary = ''Revisit: My Decision!!'',
               description = ''first'' @ [CHR 0x0A] @ ''second'',
               dtstart = ''20240331T120000'', dtend = ''20240331T123000''\<rparr>"
    by (simp only: v)
  from r [THEN conjunct2, THEN conjunct2, THEN conjunct2, rule_format, OF y]
  have 2: "readBasic (formatDate eastHost (TimeValue 1711879200000)) = Some (2024, 3, 31, 12, 0, 0)"
    by (simp only: v)
  show ?thesis
    by (intro conjI) (rule g, rule t, rule c, rule 1, rule y [THEN conjunct1],
        rule y [THEN conjunct2], rule 2)
qed

text \<open>
  Claim C4, as stated for every title and body, fails. A content with a backslash
  followed by the letter n is written unchanged (only line feeds are escaped), so the
  reader turns the two characters into a line feed: the content a, backslash, n, b is read
  back as a, line feed, b. A title with a CRLF in it ends its line there: the title a,
  CRLF, b is read back as a.
\<close>

theorem ics_round_trip_counterexample:
  "map_option description (readICS (projr (generateICS utcHost (dateFns utcHost) exampleNow
      exampleNow exampleNow (exampleData\<lparr>content := Some [CHR ''a'', CHR 0x5C, CHR ''n'', CHR ''b'']\<rparr>))))
     = Some [CHR ''a'', CHR 0x0A, CHR ''b'']
   \<and> map_option summary (readICS (projr (generateICS utcHost (dateFns utcHost) exampleNow
      exampleNow exampleNow (exampleData\<lparr>title := ''a'' @ CRLF @ ''b''\<rparr>))))
     = Some ''a''"
  by code_simp

end
